theory Spec2Isabelle
  imports Main "HOL-Library.Sublist"
begin

section \<open>Text\<close>

text \<open>
  The filter works on Python unicode strings. A string is modelled as the list of its
  characters, each character as the number \<open>ord\<close> gives for it (a code point; on a
  narrow Python build a 16-bit code unit). Isabelle's own \<open>char\<close> has eight bits and
  cannot hold \<open>U+D800\<close> or \<open>U+FFFE\<close>, which the filter names.
\<close>

type_synonym ustring = "nat list"

text \<open>A literal of the source, written as an Isabelle string.\<close>

definition lit :: "string \<Rightarrow> ustring" where
  "lit s = map of_char s"

text \<open>The double quote (U+0022) and the apostrophe (U+0027), as one-character strings.\<close>

definition dquote :: ustring where
  "dquote = [34]"

definition apos :: ustring where
  "apos = [39]"

section \<open>The part of Python's \<open>re\<close> the filter uses\<close>

text \<open>
  A character class is a list of single characters and ranges; a pattern is a list of
  alternatives, each a character class or a literal string. Alternatives are tried in
  the order written and the first that matches wins, as in Python.
\<close>

datatype item = Chr nat | Range nat nat

fun in_item :: "nat \<Rightarrow> item \<Rightarrow> bool" where
  "in_item c (Chr d) = (c = d)"
| "in_item c (Range lo hi) = (lo \<le> c \<and> c \<le> hi)"

definition in_class :: "item list \<Rightarrow> nat \<Rightarrow> bool" where
  "in_class cls c = list_ex (in_item c) cls"

datatype atom = CharClass "item list" | Literal ustring

type_synonym regex = "atom list"

text \<open>The text an alternative matches at the start of \<open>s\<close> (\<open>match.group()\<close>), if any.\<close>

fun match_atom :: "atom \<Rightarrow> ustring \<Rightarrow> ustring option" where
  "match_atom (CharClass cls) [] = None"
| "match_atom (CharClass cls) (c # cs) = (if in_class cls c then Some [c] else None)"
| "match_atom (Literal l) s = (if prefix l s then Some l else None)"

fun re_match :: "regex \<Rightarrow> ustring \<Rightarrow> ustring option" where
  "re_match [] s = None"
| "re_match (a # alts) s =
     (case match_atom a s of Some m \<Rightarrow> Some m | None \<Rightarrow> re_match alts s)"

section \<open>Effects: warnings, the output file, exceptions\<close>

datatype error = TypeError | IOError

text \<open>
  The world a call runs in: the file object \<open>f\<close> that \<open>codecs.open\<close> returned (its
  name, the text written to it so far, before the codec encodes it, and whether it has
  been closed), the device behind it, and the warnings issued so far.
  The device is a parameter of the model: \<open>quota = Some n\<close> is a device that accepts
  \<open>n\<close> more \<open>print\<close> statements and fails the next one with an \<open>IOError\<close>;
  \<open>quota = None\<close> is a device that never fails.
\<close>

record world =
  fname :: ustring
  ftext :: ustring
  closed :: bool
  quota :: "nat option"
  warnings :: "string list"

text \<open>
  A computation takes the world and returns a value or the exception it raised,
  together with the world it leaves behind.
\<close>

type_synonym 'a io = "world \<Rightarrow> (error + 'a) \<times> world"

definition ret :: "'a \<Rightarrow> 'a io" where
  "ret x w = (Inr x, w)"

definition raise :: "error \<Rightarrow> 'a io" where
  "raise e w = (Inl e, w)"

text \<open>Sequencing: an exception of the first computation skips the second.\<close>

definition and_then :: "'a io \<Rightarrow> ('a \<Rightarrow> 'b io) \<Rightarrow> 'b io" where
  "and_then m k w = (case m w of (Inl e, w') \<Rightarrow> (Inl e, w') | (Inr x, w') \<Rightarrow> k x w')"

text \<open>A \<open>for\<close> loop over a sequence.\<close>

fun for_each :: "'a list \<Rightarrow> ('a \<Rightarrow> unit io) \<Rightarrow> unit io" where
  "for_each [] body = ret ()"
| "for_each (x # xs) body = and_then (body x) (\<lambda>_. for_each xs body)"

text \<open>
  \<open>warnings.warn\<close>: the call is recorded and nothing is raised, as under Python's
  default warning filter. Which of the recorded warnings the filter shows (by default a
  repeated warning of one source line is shown once) is outside the model.
\<close>

definition warnings_warn :: "string \<Rightarrow> unit io" where
  "warnings_warn msg w = (Inr (), w\<lparr>warnings := warnings w @ [msg]\<rparr>)"

text \<open>\<open>ord\<close> of a string: its one character, and a \<open>TypeError\<close> on any other length.\<close>

fun ord :: "ustring \<Rightarrow> nat io" where
  "ord [c] = ret c"
| "ord s = raise TypeError"

text \<open>\<open>'%x' % n\<close>: lower-case hexadecimal, no padding.\<close>

definition hex_digit :: "nat \<Rightarrow> nat" where
  "hex_digit d = lit ''0123456789abcdef'' ! d"

fun format_x :: "nat \<Rightarrow> ustring" where
  "format_x n = (if n < 16 then [hex_digit n] else format_x (n div 16) @ [hex_digit (n mod 16)])"

declare format_x.simps [simp del]

text \<open>
  \<open>pattern.sub(repl, string)\<close>: the text is scanned once from the left; where the
  pattern matches, \<open>repl\<close> is called on the match and its result is emitted, and the
  scan goes on behind the match; elsewhere the character is copied. Neither pattern of
  this module can match the empty string; the model treats an empty match as no match
  at that position.
\<close>

function re_sub :: "regex \<Rightarrow> (ustring \<Rightarrow> ustring io) \<Rightarrow> ustring \<Rightarrow> ustring io" where
  "re_sub p repl [] w = (Inr [], w)"
| "re_sub p repl (c # cs) w =
     (case re_match p (c # cs) of
        None \<Rightarrow>
          (case re_sub p repl cs w of
             (Inl e, w') \<Rightarrow> (Inl e, w')
           | (Inr out, w') \<Rightarrow> (Inr (c # out), w'))
      | Some m \<Rightarrow>
          if m = [] then
            (case re_sub p repl cs w of
               (Inl e, w') \<Rightarrow> (Inl e, w')
             | (Inr out, w') \<Rightarrow> (Inr (c # out), w'))
          else
            (case repl m w of
               (Inl e, w1) \<Rightarrow> (Inl e, w1)
             | (Inr new, w1) \<Rightarrow>
                 (case re_sub p repl (drop (length m) (c # cs)) w1 of
                    (Inl e, w2) \<Rightarrow> (Inl e, w2)
                  | (Inr out, w2) \<Rightarrow> (Inr (new @ out), w2))))"
  by pat_completeness auto
termination
  by (relation "measure (\<lambda>(p, repl, s, w). length s)") auto

section \<open>The escaper\<close>

text \<open>
  What is not in the \<open>Char\<close> production of the XML grammar:
  \<^verbatim>\<open>
  _non_char = (
      u'['
      u'\x00-\x08\x0B\x0C\x0E-\x1F'  # Control characters
      u'\uD800-\uDFFF'               # Surrogates
      u'\uFFFE\uFFFF'                # Permanently unassigned (BOM)
      u']'
  )
  \<close>
\<close>

definition non_char :: "item list" where
  "non_char =
     [Range 0x00 0x08, Chr 0x0B, Chr 0x0C, Range 0x0E 0x1F,
      Range 0xD800 0xDFFF,
      Chr 0xFFFE, Chr 0xFFFF]"

text \<open>
  What is not in the \<open>AttValue\<close> production:
  \<^verbatim>\<open>_non_att_value_matcher = re.compile(_non_char + u'|[<&"]')\<close>
\<close>

definition non_att_value_matcher :: regex where
  "non_att_value_matcher = [CharClass non_char, CharClass (map Chr (lit ''<&'' @ dquote))]"

text \<open>
  What is not in the \<open>CharData\<close> production:
  \<^verbatim>\<open>_non_char_data_matcher = re.compile(_non_char + u'|[<&]|]]>')\<close>
\<close>

definition non_char_data_matcher :: regex where
  "non_char_data_matcher =
     [CharClass non_char, CharClass (map Chr (lit ''<&'')), Literal (lit '']]>'')]"

text \<open>
  \<^verbatim>\<open>
  _replacements = {
      '<'   : '&lt;',
      '>'   : '&gt;',
      '&'   : '&amp;',
      '"'   : '&quot;',
      "'"   : '&apos;',
      ']]>' : ']]&gt;',
  }
  def _replacer(match):
      old = match.group()
      new = _replacements.get(old)
      if new is None:
          warnings.warn('found invalid XML characters; this will not be a '
                        'well-formed XML document')
          new = '&#x%x;' % ord(old)
      return new
  \<close>
\<close>

definition replacements :: "ustring \<rightharpoonup> ustring" where
  "replacements = map_of
     [(lit ''<'', lit ''&lt;''),
      (lit ''>'', lit ''&gt;''),
      (lit ''&'', lit ''&amp;''),
      (dquote, lit ''&quot;''),
      (apos, lit ''&apos;''),
      (lit '']]>'', lit '']]&gt;'')]"

definition invalid_xml_warning :: string where
  "invalid_xml_warning =
     ''found invalid XML characters; this will not be a well-formed XML document''"

definition replacer :: "ustring \<Rightarrow> ustring io" where
  "replacer old =
     (case replacements old of
        Some new \<Rightarrow> ret new
      | None \<Rightarrow>
          and_then (warnings_warn invalid_xml_warning) (\<lambda>_.
          and_then (ord old) (\<lambda>n.
          ret (lit ''&#x'' @ format_x n @ lit '';''))))"

text \<open>
  \<^verbatim>\<open>
  def _formatAttribute(value):
      return '"%s"' % _non_att_value_matcher.sub(_replacer, value)
  def _formatElementText(value):
      return _non_char_data_matcher.sub(_replacer, value)
  \<close>
\<close>

definition formatAttribute :: "ustring \<Rightarrow> ustring io" where
  "formatAttribute val =
     and_then (re_sub non_att_value_matcher replacer val) (\<lambda>t. ret (dquote @ t @ dquote))"

definition formatElementText :: "ustring \<Rightarrow> ustring io" where
  "formatElementText val = re_sub non_char_data_matcher replacer val"

section \<open>The file object\<close>

text \<open>
  \<open>codecs.open(out, 'w', encoding='utf-8')\<close>: a fresh, empty, open file under the
  name \<open>out\<close>. The model covers the runs in which the open itself succeeds.
\<close>

definition codecs_open :: "ustring \<Rightarrow> unit io" where
  "codecs_open out w = (Inr (), w\<lparr>fname := out, ftext := [], closed := False\<rparr>)"

text \<open>
  \<open>print >> f, s\<close>: the text and a line feed are appended, or the device fails and
  the \<open>IOError\<close> propagates.
\<close>

definition print_to_f :: "ustring \<Rightarrow> unit io" where
  "print_to_f s w =
     (case quota w of
        None \<Rightarrow> (Inr (), w\<lparr>ftext := ftext w @ s @ [10]\<rparr>)
      | Some 0 \<Rightarrow> (Inl IOError, w)
      | Some (Suc n) \<Rightarrow> (Inr (), w\<lparr>ftext := ftext w @ s @ [10], quota := Some n\<rparr>))"

definition f_close :: "unit io" where
  "f_close w = (Inr (), w\<lparr>closed := True\<rparr>)"

section \<open>The database, as the filter reads it\<close>

text \<open>
  The classes of the database are not part of this module; the filter only iterates
  them. A row's \<open>items()\<close> are its (column, value) pairs in stored order; iterating a
  table, or the rows of a metatable, gives (namespace, id, row) triples;
  \<open>db.tables.items()\<close> gives (namespace, id, table) triples, and
  \<open>db.metaTables.get\<close> looks a metatable up by (namespace, id).
\<close>

type_synonym row = "(ustring \<times> ustring) list"

type_synonym table = "(ustring \<times> ustring \<times> row) list"

record metatable =
  cells :: row
  rows :: table

record database =
  tables :: "(ustring \<times> ustring \<times> table) list"
  metaTables :: "ustring \<times> ustring \<rightharpoonup> metatable"

section \<open>The tree writer\<close>

definition indentStr0 :: ustring where
  "indentStr0 = lit ''    ''"

text \<open>\<open>s * n\<close> on a string: \<open>n\<close> copies, none when \<open>n\<close> is negative.\<close>

definition str_mul :: "ustring \<Rightarrow> int \<Rightarrow> ustring" where
  "str_mul s n = concat (replicate (nat n) s)"

text \<open>
  \<^verbatim>\<open>
  def _writeCell(f, column, value, indent):
      indentStr = _indentStr * indent
      print >> f, '%s<cell column=%s>%s</cell>' % (indentStr,
          _formatAttribute(column), _formatElementText(value))
  \<close>
  The arguments of \<open>%\<close> are evaluated from left to right, then the line is printed.
\<close>

definition writeCell :: "ustring \<Rightarrow> ustring \<Rightarrow> int \<Rightarrow> unit io" where
  "writeCell column val indent =
     (let indentStr = str_mul indentStr0 indent in
      and_then (formatAttribute column) (\<lambda>a.
      and_then (formatElementText val) (\<lambda>t.
      print_to_f (indentStr @ lit ''<cell column='' @ a @ lit ''>'' @ t @ lit ''</cell>''))))"

text \<open>
  \<^verbatim>\<open>
  def _writeRow(f, namespace, oid, row, indent):
      indentStr = _indentStr * indent
      print >> f, '%s<row namespace=%s id=%s>' % (indentStr,
          _formatAttribute(namespace), _formatAttribute(oid))
      for (column, value) in row.items():
          _writeCell(f, column, value, indent + 1)
      print >> f, '%s</row>' % indentStr
  \<close>
\<close>

definition writeRow :: "ustring \<Rightarrow> ustring \<Rightarrow> row \<Rightarrow> int \<Rightarrow> unit io" where
  "writeRow namespace oid r indent =
     (let indentStr = str_mul indentStr0 indent in
      and_then (formatAttribute namespace) (\<lambda>a.
      and_then (formatAttribute oid) (\<lambda>b.
      and_then (print_to_f (indentStr @ lit ''<row namespace='' @ a @ lit '' id='' @ b @ lit ''>'')) (\<lambda>_.
      and_then (for_each r (\<lambda>(column, val). writeCell column val (indent + 1))) (\<lambda>_.
      print_to_f (indentStr @ lit ''</row>''))))))"

text \<open>
  \<^verbatim>\<open>
  def _writeMetaTable(f, meta, indent):
      indentStr = _indentStr * indent
      print >> f, '%s<metatable>' % indentStr
      for (column, value) in meta.cells.items():
          _writeCell(f, column, value, indent + 1)
      for (namespace, oid, row) in meta.rows:
          _writeRow(f, namespace, oid, row, indent + 1)
      print >> f, '%s</metatable>' % indentStr
  \<close>
\<close>

definition writeMetaTable :: "metatable \<Rightarrow> int \<Rightarrow> unit io" where
  "writeMetaTable meta indent =
     (let indentStr = str_mul indentStr0 indent in
      and_then (print_to_f (indentStr @ lit ''<metatable>'')) (\<lambda>_.
      and_then (for_each (cells meta) (\<lambda>(column, val). writeCell column val (indent + 1))) (\<lambda>_.
      and_then (for_each (rows meta) (\<lambda>(namespace, oid, r). writeRow namespace oid r (indent + 1))) (\<lambda>_.
      print_to_f (indentStr @ lit ''</metatable>'')))))"

text \<open>
  \<^verbatim>\<open>
  def _writeTable(f, namespace, oid, table, meta=None, indent=1):
      indentStr = _indentStr * indent
      print >> f, '%s<table namespace=%s id=%s>' % (indentStr,
          _formatAttribute(namespace), _formatAttribute(oid))
      for (rowNamespace, rowId, row) in table:
          _writeRow(f, rowNamespace, rowId, row, indent + 1)
      if meta is not None:
          _writeMetaTable(f, meta, indent + 1)
      print >> f, '%s</table>' % indentStr
  \<close>
\<close>

definition writeTable ::
  "ustring \<Rightarrow> ustring \<Rightarrow> table \<Rightarrow> metatable option \<Rightarrow> int \<Rightarrow> unit io" where
  "writeTable namespace oid tbl meta indent =
     (let indentStr = str_mul indentStr0 indent in
      and_then (formatAttribute namespace) (\<lambda>a.
      and_then (formatAttribute oid) (\<lambda>b.
      and_then (print_to_f (indentStr @ lit ''<table namespace='' @ a @ lit '' id='' @ b @ lit ''>'')) (\<lambda>_.
      and_then (for_each tbl (\<lambda>(rowNamespace, rowId, r). writeRow rowNamespace rowId r (indent + 1))) (\<lambda>_.
      and_then (case meta of
                  None \<Rightarrow> ret ()
                | Some m \<Rightarrow> writeMetaTable m (indent + 1)) (\<lambda>_.
      print_to_f (indentStr @ lit ''</table>'')))))))"

text \<open>
  \<^verbatim>\<open>
  def _outputHelper(db, out='mork.xml'):
      f = codecs.open(out, 'w', encoding='utf-8')
      print >> f, '<?xml version="1.0" encoding="UTF-8" ?>'
      print >> f, '<morkxml>'
      for (namespace, oid, table) in db.tables.items():
          meta = db.metaTables.get((namespace, oid))
          _writeTable(f, namespace, oid, table, meta)
      print >> f, '</morkxml>'
      f.close()
  \<close>
  In the model \<open>out = None\<close> is the call that omits the argument. \<open>_writeTable\<close> is
  called without \<open>indent\<close>, which defaults to 1.
\<close>

definition outputHelper :: "database \<Rightarrow> ustring option \<Rightarrow> unit io" where
  "outputHelper db out =
     and_then (codecs_open (case out of None \<Rightarrow> lit ''mork.xml'' | Some name \<Rightarrow> name)) (\<lambda>_.
     and_then (print_to_f (lit ''<?xml version='' @ dquote @ lit ''1.0'' @ dquote
                           @ lit '' encoding='' @ dquote @ lit ''UTF-8'' @ dquote @ lit '' ?>'')) (\<lambda>_.
     and_then (print_to_f (lit ''<morkxml>'')) (\<lambda>_.
     and_then (for_each (tables db) (\<lambda>(namespace, oid, tbl).
                 writeTable namespace oid tbl (metaTables db (namespace, oid)) 1)) (\<lambda>_.
     and_then (print_to_f (lit ''</morkxml>'')) (\<lambda>_.
     f_close)))))"

text \<open>A world to start from: nothing written, no warning yet, a device that never fails.\<close>

definition idle :: world where
  "idle = \<lparr>fname = [], ftext = [], closed = False, quota = None, warnings = []\<rparr>"

text \<open>
  The database of the specification's example: one table (namespace \<open>ns1\<close>, id \<open>1\<close>)
  with one row (namespace \<open>ns1\<close>, id \<open>r1\<close>) that has the single cell \<open>Name\<close>
  with the value \<open>A & B\<close>, and no metatable.
\<close>

definition example_db :: database where
  "example_db =
     \<lparr>tables = [(lit ''ns1'', lit ''1'', [(lit ''ns1'', lit ''r1'', [(lit ''Name'', lit ''A & B'')])])],
      metaTables = Map.empty\<rparr>"

section \<open>Notions the properties are stated with\<close>

subsection \<open>Characters\<close>

text \<open>
  The characters the specification calls illegal: U+0000 to U+0008, U+000B, U+000C,
  U+000E to U+001F, the surrogates U+D800 to U+DFFF, and U+FFFE, U+FFFF.
\<close>

definition illegal :: "nat \<Rightarrow> bool" where
  "illegal c =
     (c \<le> 0x8 \<or> c = 0xB \<or> c = 0xC \<or> (0xE \<le> c \<and> c \<le> 0x1F) \<or>
      (0xD800 \<le> c \<and> c \<le> 0xDFFF) \<or> c = 0xFFFE \<or> c = 0xFFFF)"

text \<open>
  The \<open>Char\<close> production of XML 1.0:
  \<open>#x9 | #xA | #xD | [#x20-#xD7FF] | [#xE000-#xFFFD] | [#x10000-#x10FFFF]\<close>.
\<close>

definition xml_char :: "nat \<Rightarrow> bool" where
  "xml_char c =
     (c = 0x9 \<or> c = 0xA \<or> c = 0xD \<or> (0x20 \<le> c \<and> c \<le> 0xD7FF) \<or>
      (0xE000 \<le> c \<and> c \<le> 0xFFFD) \<or> (0x10000 \<le> c \<and> c \<le> 0x10FFFF))"

text \<open>The numeric character reference of a character.\<close>

definition char_ref :: "nat \<Rightarrow> ustring" where
  "char_ref c = lit ''&#x'' @ format_x c @ lit '';''"

text \<open>The number a string of lower-case hexadecimal digits denotes.\<close>

definition digit_value :: "nat \<Rightarrow> nat" where
  "digit_value d = (if d \<le> 57 then d - 48 else d - 87)"

definition hex_value :: "ustring \<Rightarrow> nat" where
  "hex_value ds = foldl (\<lambda>a d. 16 * a + digit_value d) 0 ds"

subsection \<open>The escaped text, token by token\<close>

text \<open>
  In an attribute value every character is a token of its own. Its image is its
  replacement when the matcher matches it, and the character itself otherwise.
\<close>

definition att_escape_char :: "nat \<Rightarrow> ustring" where
  "att_escape_char c =
     (if c = 60 then lit ''&lt;''
      else if c = 38 then lit ''&amp;''
      else if c = 34 then lit ''&quot;''
      else if illegal c then char_ref c
      else [c])"

definition att_warnings :: "nat \<Rightarrow> string list" where
  "att_warnings c = (if illegal c then [invalid_xml_warning] else [])"

text \<open>
  In character data the tokens are the occurrences of \<open>]]>\<close>, found from the left,
  and the single characters between them.
\<close>

function cd_tokens :: "ustring \<Rightarrow> ustring list" where
  "cd_tokens [] = []"
| "cd_tokens (c # cs) =
     (if prefix (lit '']]>'') (c # cs) then lit '']]>'' # cd_tokens (drop 2 cs)
      else [c] # cd_tokens cs)"
  by pat_completeness auto
termination
  by (relation "measure length") auto

definition cd_escape_token :: "ustring \<Rightarrow> ustring" where
  "cd_escape_token t =
     (if t = lit '']]>'' then lit '']]&gt;''
      else if t = lit ''<'' then lit ''&lt;''
      else if t = lit ''&'' then lit ''&amp;''
      else if list_all illegal t then concat (map char_ref t)
      else t)"

definition cd_warnings :: "ustring \<Rightarrow> string list" where
  "cd_warnings t = (if list_all illegal t then map (\<lambda>c. invalid_xml_warning) t else [])"

subsection \<open>Raw markup\<close>

text \<open>
  An ampersand is raw unless it opens a reference: the name of one of the five
  predefined entities or \<open>#x\<close> and hexadecimal digits, closed by a semicolon.
\<close>

definition hex_char :: "nat \<Rightarrow> bool" where
  "hex_char c = (c \<in> set (lit ''0123456789abcdefABCDEF''))"

definition opens_reference :: "ustring \<Rightarrow> bool" where
  "opens_reference cs =
     (prefix (lit ''lt;'') cs \<or> prefix (lit ''gt;'') cs \<or> prefix (lit ''amp;'') cs \<or>
      prefix (lit ''quot;'') cs \<or> prefix (lit ''apos;'') cs \<or>
      (prefix (lit ''#x'') cs \<and> takeWhile hex_char (drop 2 cs) \<noteq> [] \<and>
       prefix (lit '';'') (dropWhile hex_char (drop 2 cs))))"

text \<open>
  \<open>raw_free bad s\<close>: no character of \<open>bad\<close> occurs in \<open>s\<close>, and every ampersand
  of \<open>s\<close> opens a reference.
\<close>

fun raw_free :: "ustring \<Rightarrow> ustring \<Rightarrow> bool" where
  "raw_free bad [] = True"
| "raw_free bad (c # cs) =
     ((if c = 38 then opens_reference cs else c \<notin> set bad) \<and> raw_free bad cs)"

subsection \<open>The document the specification describes\<close>

text \<open>The text of a file that holds the given lines.\<close>

definition file_of_lines :: "ustring list \<Rightarrow> ustring" where
  "file_of_lines ls = concat (map (\<lambda>l. l @ [10]) ls)"

definition escape_att :: "ustring \<Rightarrow> ustring" where
  "escape_att s = dquote @ concat (map att_escape_char s) @ dquote"

definition escape_cd :: "ustring \<Rightarrow> ustring" where
  "escape_cd s = concat (map cd_escape_token (cd_tokens s))"

definition indentation :: "int \<Rightarrow> ustring" where
  "indentation depth = concat (replicate (nat depth) (lit ''    ''))"

definition cell_line :: "int \<Rightarrow> ustring \<times> ustring \<Rightarrow> ustring" where
  "cell_line depth cell =
     indentation depth @ lit ''<cell column='' @ escape_att (fst cell) @ lit ''>''
       @ escape_cd (snd cell) @ lit ''</cell>''"

text \<open>A row element: its open tag, its cells in stored order, its close tag.\<close>

definition row_lines :: "int \<Rightarrow> ustring \<times> ustring \<times> row \<Rightarrow> ustring list" where
  "row_lines depth r =
     [indentation depth @ lit ''<row namespace='' @ escape_att (fst r)
        @ lit '' id='' @ escape_att (fst (snd r)) @ lit ''>'']
     @ map (cell_line (depth + 1)) (snd (snd r))
     @ [indentation depth @ lit ''</row>'']"

text \<open>A metatable element: its cells in stored order, then its rows in stored order.\<close>

definition metatable_lines :: "int \<Rightarrow> metatable \<Rightarrow> ustring list" where
  "metatable_lines depth m =
     [indentation depth @ lit ''<metatable>'']
     @ map (cell_line (depth + 1)) (cells m)
     @ concat (map (row_lines (depth + 1)) (rows m))
     @ [indentation depth @ lit ''</metatable>'']"

text \<open>A table element: its rows in stored order, then its metatable, if it has one.\<close>

definition table_lines ::
  "int \<Rightarrow> (ustring \<times> ustring \<rightharpoonup> metatable) \<Rightarrow> ustring \<times> ustring \<times> table \<Rightarrow> ustring list" where
  "table_lines depth metas t =
     [indentation depth @ lit ''<table namespace='' @ escape_att (fst t)
        @ lit '' id='' @ escape_att (fst (snd t)) @ lit ''>'']
     @ concat (map (row_lines (depth + 1)) (snd (snd t)))
     @ (case metas (fst t, fst (snd t)) of
          None \<Rightarrow> []
        | Some m \<Rightarrow> metatable_lines (depth + 1) m)
     @ [indentation depth @ lit ''</table>'']"

text \<open>The document: the declaration, the root element, the tables in stored order.\<close>

definition document_lines :: "database \<Rightarrow> ustring list" where
  "document_lines db =
     [lit ''<?xml version='' @ dquote @ lit ''1.0'' @ dquote @ lit '' encoding=''
        @ dquote @ lit ''UTF-8'' @ dquote @ lit '' ?>'',
      lit ''<morkxml>'']
     @ concat (map (table_lines 1 (metaTables db)) (tables db))
     @ [lit ''</morkxml>'']"

subsection \<open>Descriptions of what a computation does, used in the proofs\<close>

text \<open>What a writer does on a device that never fails: it appends lines and may add warnings.\<close>

definition appends :: "unit io \<Rightarrow> ustring list \<Rightarrow> bool" where
  "appends m ls =
     (\<forall>w. quota w = None \<longrightarrow>
        (\<exists>ws. m w = (Inr (), w\<lparr>ftext := ftext w @ file_of_lines ls, warnings := warnings w @ ws\<rparr>)))"

text \<open>The statements of \<open>_outputHelper\<close> between the open and the close.\<close>

definition write_document :: "database \<Rightarrow> unit io" where
  "write_document db =
     and_then (print_to_f (lit ''<?xml version='' @ dquote @ lit ''1.0'' @ dquote
                           @ lit '' encoding='' @ dquote @ lit ''UTF-8'' @ dquote @ lit '' ?>'')) (\<lambda>_.
     and_then (print_to_f (lit ''<morkxml>'')) (\<lambda>_.
     and_then (for_each (tables db) (\<lambda>(namespace, oid, tbl).
                 writeTable namespace oid tbl (metaTables db (namespace, oid)) 1)) (\<lambda>_.
     print_to_f (lit ''</morkxml>''))))"

text \<open>A computation that leaves the open or closed state of the file as it is.\<close>

definition keeps_closed :: "'a io \<Rightarrow> bool" where
  "keeps_closed m = (\<forall>w. closed (snd (m w)) = closed w)"

section \<open>Facts about the matchers and the replacer\<close>

lemma lit_simps: "lit [] = []" "lit (x # xs) = of_char x # lit xs"
  by (simp_all add: lit_def)

lemma in_non_char: "in_class non_char c = illegal c"
  by (auto simp: in_class_def non_char_def illegal_def)

lemma illegal_not_named: "illegal c \<Longrightarrow> c \<noteq> 60 \<and> c \<noteq> 62 \<and> c \<noteq> 38 \<and> c \<noteq> 34 \<and> c \<noteq> 39 \<and> c \<noteq> 93"
  by (auto simp: illegal_def)

lemma illegal_iff_not_xml_char: "c \<le> 0x10FFFF \<Longrightarrow> illegal c = (\<not> xml_char c)"
  unfolding illegal_def xml_char_def by arith

lemma in_class_simps: "in_class [] c = False" "in_class (i # cls) c = (in_item c i \<or> in_class cls c)"
  by (simp_all add: in_class_def)

lemma match_att:
  "re_match non_att_value_matcher (c # cs) =
     (if illegal c \<or> c = 60 \<or> c = 38 \<or> c = 34 then Some [c] else None)"
  by (auto simp: non_att_value_matcher_def in_non_char in_class_simps lit_simps dquote_def)

lemma match_cd:
  "re_match non_char_data_matcher (c # cs) =
     (if illegal c \<or> c = 60 \<or> c = 38 then Some [c]
      else if prefix (lit '']]>'') (c # cs) then Some (lit '']]>'') else None)"
  by (auto simp: non_char_data_matcher_def in_non_char in_class_simps lit_simps)

lemma matchers_never_empty:
  "re_match non_att_value_matcher s \<noteq> Some []"
  "re_match non_char_data_matcher s \<noteq> Some []"
proof -
  show "re_match non_att_value_matcher s \<noteq> Some []"
    by (cases s) (simp_all add: match_att, simp add: non_att_value_matcher_def)
  show "re_match non_char_data_matcher s \<noteq> Some []"
    by (cases s) (simp_all add: match_cd lit_simps, simp add: non_char_data_matcher_def lit_simps)
qed

lemma replacer_illegal:
  "illegal c \<Longrightarrow> replacer [c] w = (Inr (char_ref c), w\<lparr>warnings := warnings w @ [invalid_xml_warning]\<rparr>)"
  by (auto simp: replacer_def replacements_def lit_simps dquote_def apos_def illegal_def
      and_then_def warnings_warn_def ret_def char_ref_def)

lemma replacer_named:
  "replacer [60] w = (Inr (lit ''&lt;''), w)"
  "replacer [38] w = (Inr (lit ''&amp;''), w)"
  "replacer [34] w = (Inr (lit ''&quot;''), w)"
  "replacer (lit '']]>'') w = (Inr (lit '']]&gt;''), w)"
  by (simp_all add: replacer_def replacements_def lit_simps dquote_def apos_def ret_def)

lemma not_illegal_named:
  "\<not> illegal 60" "\<not> illegal 38" "\<not> illegal 34" "\<not> illegal 39" "\<not> illegal 62" "\<not> illegal 93"
  by (simp_all add: illegal_def)

lemma re_sub_att:
  "re_sub non_att_value_matcher replacer s w =
     (Inr (concat (map att_escape_char s)),
      w\<lparr>warnings := warnings w @ concat (map att_warnings s)\<rparr>)"
proof (induction s arbitrary: w)
  case Nil
  show ?case by simp
next
  case (Cons c cs)
  consider "illegal c" | "c = 60" | "c = 38" | "c = 34"
    | "\<not> illegal c" "c \<noteq> 60" "c \<noteq> 38" "c \<noteq> 34"
    by blast
  then show ?case
  proof cases
    case 1
    then show ?thesis
      using illegal_not_named[OF 1]
      by (simp add: match_att Cons.IH replacer_illegal att_escape_char_def att_warnings_def)
  next
    case 2
    then show ?thesis
      by (simp add: match_att Cons.IH replacer_named att_escape_char_def att_warnings_def
          not_illegal_named)
  next
    case 3
    then show ?thesis
      by (simp add: match_att Cons.IH replacer_named att_escape_char_def att_warnings_def
          not_illegal_named)
  next
    case 4
    then show ?thesis
      by (simp add: match_att Cons.IH replacer_named att_escape_char_def att_warnings_def
          not_illegal_named)
  next
    case 5
    then show ?thesis
      by (simp add: match_att Cons.IH att_escape_char_def att_warnings_def)
  qed
qed

lemma re_sub_cd:
  "re_sub non_char_data_matcher replacer s w =
     (Inr (concat (map cd_escape_token (cd_tokens s))),
      w\<lparr>warnings := warnings w @ concat (map cd_warnings (cd_tokens s))\<rparr>)"
proof (induction s arbitrary: w rule: cd_tokens.induct)
  case 1
  show ?case by simp
next
  case (2 c cs)
  consider "prefix (lit '']]>'') (c # cs)"
    | "\<not> prefix (lit '']]>'') (c # cs)" "illegal c"
    | "\<not> prefix (lit '']]>'') (c # cs)" "c = 60"
    | "\<not> prefix (lit '']]>'') (c # cs)" "c = 38"
    | "\<not> prefix (lit '']]>'') (c # cs)" "\<not> illegal c" "c \<noteq> 60" "c \<noteq> 38"
    by blast
  then show ?case
  proof cases
    case 1
    then have c: "c = 93"
      by (simp add: lit_simps)
    have d: "\<And>x. drop (length (lit '']]>'')) (x # cs) = drop 2 cs"
      by (simp add: lit_simps numeral_2_eq_2)
    have e: "cd_escape_token (lit '']]>'') = lit '']]&gt;''" "cd_warnings (lit '']]>'') = []"
      by (simp_all add: cd_escape_token_def cd_warnings_def lit_simps not_illegal_named)
    have n: "lit '']]>'' \<noteq> []"
      by (simp add: lit_simps)
    show ?thesis
      using 1 2(1)[OF 1]
      by (simp add: match_cd replacer_named c d e n not_illegal_named)
  next
    case 2
    have e: "cd_escape_token [c] = char_ref c" "cd_warnings [c] = [invalid_xml_warning]"
      using 2 illegal_not_named[OF 2(2)]
      by (simp_all add: cd_escape_token_def cd_warnings_def lit_simps)
    show ?thesis
      using 2 \<open>\<not> prefix (lit '']]>'') (c # cs)\<close> 2(2) "2.IH"(2)
      by (simp add: match_cd replacer_illegal e)
  next
    case 3
    have e: "cd_escape_token [60] = lit ''&lt;''" "cd_warnings [60] = []"
      by (simp_all add: cd_escape_token_def cd_warnings_def lit_simps not_illegal_named)
    show ?thesis
      using 3 "2.IH"(2)
      by (simp add: match_cd replacer_named e)
  next
    case 4
    have e: "cd_escape_token [38] = lit ''&amp;''" "cd_warnings [38] = []"
      by (simp_all add: cd_escape_token_def cd_warnings_def lit_simps not_illegal_named)
    show ?thesis
      using 4 "2.IH"(2)
      by (simp add: match_cd replacer_named e)
  next
    case 5
    have e: "cd_escape_token [c] = [c]" "cd_warnings [c] = []"
      using 5 by (simp_all add: cd_escape_token_def cd_warnings_def lit_simps)
    show ?thesis
      using 5 "2.IH"(2)
      by (simp add: match_cd e)
  qed
qed

section \<open>The escaper as a function of the text\<close>

lemma formatAttribute_eq:
  "formatAttribute s w =
     (Inr (escape_att s), w\<lparr>warnings := warnings w @ concat (map att_warnings s)\<rparr>)"
  by (simp add: formatAttribute_def and_then_def re_sub_att ret_def escape_att_def)

lemma formatElementText_eq:
  "formatElementText s w =
     (Inr (escape_cd s), w\<lparr>warnings := warnings w @ concat (map cd_warnings (cd_tokens s))\<rparr>)"
  by (simp add: formatElementText_def re_sub_cd escape_cd_def)

section \<open>References and raw markup\<close>

lemma hex_digit_hex_char: "d < 16 \<Longrightarrow> hex_char (hex_digit d)"
proof -
  assume "d < 16"
  then have "d \<in> {0, 1, 2, 3, 4, 5, 6, 7, 8, 9, 10, 11, 12, 13, 14, 15}"
    by simp arith
  then show ?thesis
    by (auto simp: hex_digit_def hex_char_def lit_simps)
qed

lemma format_x_hex: "list_all hex_char (format_x n)"
proof (induction n rule: format_x.induct)
  case (1 n)
  show ?case
  proof (cases "n < 16")
    case True
    then show ?thesis
      by (subst format_x.simps) (simp add: hex_digit_hex_char)
  next
    case False
    then show ?thesis
      using 1 by (subst format_x.simps) (simp add: hex_digit_hex_char)
  qed
qed

lemma format_x_not_Nil: "format_x n \<noteq> []"
  by (subst format_x.simps) simp

lemma hex_char_not_markup:
  "hex_char c \<Longrightarrow> c \<noteq> 59 \<and> c \<noteq> 38 \<and> c \<noteq> 60 \<and> c \<noteq> 34 \<and> c \<noteq> 93 \<and> c \<noteq> 62 \<and> c \<noteq> 10 \<and> c \<noteq> 13"
  by (auto simp: hex_char_def lit_simps)

lemma opens_reference_append: "opens_reference xs \<Longrightarrow> opens_reference (xs @ ys)"
proof -
  assume a: "opens_reference xs"
  have p: "\<And>l. prefix l xs \<Longrightarrow> prefix l (xs @ ys)"
    by (rule prefix_prefix)
  show ?thesis
  proof (cases "prefix (lit ''#x'') xs \<and> takeWhile hex_char (drop 2 xs) \<noteq> [] \<and>
       prefix (lit '';'') (dropWhile hex_char (drop 2 xs))")
    case True
    then obtain r where xs: "xs = lit ''#x'' @ r"
      by (auto simp: prefix_def)
    have len: "length (lit ''#x'') = 2"
      by (simp add: lit_simps)
    from True have t: "takeWhile hex_char r \<noteq> []" and d: "prefix (lit '';'') (dropWhile hex_char r)"
      by (simp_all add: xs len)
    from d have "dropWhile hex_char r \<noteq> []"
      by (cases "dropWhile hex_char r") (simp_all add: lit_simps)
    then obtain x where x: "x \<in> set r" "\<not> hex_char x"
      by (auto simp: dropWhile_eq_Nil_conv)
    have "takeWhile hex_char (r @ ys) = takeWhile hex_char r"
      and "dropWhile hex_char (r @ ys) = dropWhile hex_char r @ ys"
      using x by (simp_all add: takeWhile_append1 dropWhile_append1)
    with t d have "takeWhile hex_char (drop 2 (xs @ ys)) \<noteq> [] \<and>
       prefix (lit '';'') (dropWhile hex_char (drop 2 (xs @ ys)))"
      by (simp add: xs len prefix_prefix)
    moreover have "prefix (lit ''#x'') (xs @ ys)"
      by (simp add: xs)
    ultimately show ?thesis
      by (simp add: opens_reference_def)
  next
    case False
    with a show ?thesis
      unfolding opens_reference_def by (metis p)
  qed
qed

lemma raw_free_append: "raw_free bad xs \<Longrightarrow> raw_free bad ys \<Longrightarrow> raw_free bad (xs @ ys)"
  by (induction xs) (auto simp: opens_reference_append)

lemma raw_free_concat: "list_all (raw_free bad) xss \<Longrightarrow> raw_free bad (concat xss)"
  by (induction xss) (auto simp: raw_free_append)

lemma takeWhile_hex_semicolon:
  "list_all hex_char h \<Longrightarrow> takeWhile hex_char (h @ 59 # r) = h \<and> dropWhile hex_char (h @ 59 # r) = 59 # r"
  by (induction h) (auto simp: hex_char_def lit_simps)

lemma raw_free_hex:
  "list_all hex_char h \<Longrightarrow> set bad \<subseteq> {60, 34} \<Longrightarrow> raw_free bad h"
  by (induction h) (auto dest: hex_char_not_markup)

lemma raw_free_char_ref:
  assumes "set bad \<subseteq> {60, 34}"
  shows "raw_free bad (char_ref c)"
proof -
  have h: "list_all hex_char (format_x c)" and n: "format_x c \<noteq> []"
    by (rule format_x_hex, rule format_x_not_Nil)
  have o: "opens_reference (35 # 120 # format_x c @ [59])"
    using takeWhile_hex_semicolon[OF h, of "[]"] n
    by (simp add: opens_reference_def lit_simps)
  have "raw_free bad (format_x c @ [59])"
    using raw_free_hex[OF h assms] assms by (auto intro!: raw_free_append)
  with o assms show ?thesis
    by (auto simp: char_ref_def lit_simps)
qed

lemma raw_free_att_escape_char: "raw_free (lit ''<'' @ dquote) (att_escape_char c)"
proof -
  have b: "set (lit ''<'' @ dquote) \<subseteq> {60, 34}"
    by (simp add: lit_simps dquote_def)
  show ?thesis
    using raw_free_char_ref[OF b, of c]
    by (simp add: att_escape_char_def lit_simps dquote_def opens_reference_def)
qed

lemma raw_free_escape_att_body: "raw_free (lit ''<'' @ dquote) (concat (map att_escape_char s))"
  by (rule raw_free_concat) (simp add: list_all_iff raw_free_att_escape_char)

lemma cd_tokens_shape: "t \<in> set (cd_tokens s) \<Longrightarrow> t = lit '']]>'' \<or> (\<exists>c. t = [c])"
  by (induction s rule: cd_tokens.induct) (auto split: if_splits)

lemma raw_free_cd_escape_token:
  assumes "t = lit '']]>'' \<or> (\<exists>c. t = [c])"
  shows "raw_free (lit ''<'') (cd_escape_token t)"
proof -
  have b: "set (lit ''<'') \<subseteq> {60, 34}"
    by (simp add: lit_simps)
  from assms show ?thesis
  proof
    assume "t = lit '']]>''"
    then show ?thesis
      by (simp add: cd_escape_token_def lit_simps opens_reference_def)
  next
    assume "\<exists>c. t = [c]"
    then obtain c where t: "t = [c]" ..
    show ?thesis
      using raw_free_char_ref[OF b, of c]
      by (simp add: t cd_escape_token_def lit_simps opens_reference_def)
  qed
qed

lemma raw_free_escape_cd: "raw_free (lit ''<'') (escape_cd s)"
  unfolding escape_cd_def
  by (rule raw_free_concat) (auto simp: list_all_iff dest!: cd_tokens_shape intro: raw_free_cd_escape_token)

section \<open>Escaped character data never holds \<open>]]>\<close>\<close>

lemma escape_cd_Nil: "escape_cd [] = []"
  by (simp add: escape_cd_def)

lemma escape_cd_Cons:
  "escape_cd (c # cs) =
     (if prefix (lit '']]>'') (c # cs) then lit '']]&gt;'' @ escape_cd (drop 2 cs)
      else cd_escape_token [c] @ escape_cd cs)"
  by (simp add: escape_cd_def cd_escape_token_def lit_simps)

lemma cd_escape_char_cases:
  "cd_escape_token [c] = [c] \<or>
   (\<exists>r. cd_escape_token [c] = 38 # r \<and> 93 \<notin> set r)"
proof (cases "illegal c")
  case True
  have "93 \<notin> set (format_x c)"
    using format_x_hex[of c] by (auto simp: list_all_iff dest: hex_char_not_markup)
  with True show ?thesis
    using illegal_not_named[OF True]
    by (simp add: cd_escape_token_def char_ref_def lit_simps)
next
  case False
  then show ?thesis
    by (simp add: cd_escape_token_def lit_simps)
qed

lemma escape_cd_starts_gt:
  assumes p: "prefix [62] (escape_cd s)"
  shows "prefix [62] s"
proof (cases s)
  case Nil
  with p show ?thesis by (simp add: escape_cd_Nil)
next
  case (Cons c cs)
  show ?thesis
  proof (cases "prefix (lit '']]>'') (c # cs)")
    case True
    with p show ?thesis
      by (simp add: Cons escape_cd_Cons lit_simps)
  next
    case False
    with p cd_escape_char_cases[of c] show ?thesis
      by (auto simp: Cons escape_cd_Cons)
  qed
qed

lemma escape_cd_starts_bracket_gt:
  assumes p: "prefix [93, 62] (escape_cd s)"
  shows "prefix [93, 62] s"
proof (cases s)
  case Nil
  with p show ?thesis by (simp add: escape_cd_Nil)
next
  case (Cons c cs)
  show ?thesis
  proof (cases "prefix (lit '']]>'') (c # cs)")
    case True
    with p show ?thesis
      by (simp add: Cons escape_cd_Cons lit_simps)
  next
    case False
    with p cd_escape_char_cases[of c] show ?thesis
      by (auto simp: Cons escape_cd_Cons dest: escape_cd_starts_gt)
  qed
qed

lemma sublist_skip:
  "93 \<notin> set p \<Longrightarrow> sublist (93 # l) (p @ xs) \<Longrightarrow> sublist (93 # l) xs"
  by (induction p) (auto simp: sublist_Cons_right)

lemma escape_cd_no_cdata_end: "\<not> sublist (lit '']]>'') (escape_cd s)"
proof (induction s rule: cd_tokens.induct)
  case 1
  show ?case by (simp add: escape_cd_Nil lit_simps)
next
  case (2 c cs)
  show ?case
  proof (cases "prefix (lit '']]>'') (c # cs)")
    case True
    with 2(1)[OF True] show ?thesis
      by (simp add: escape_cd_Cons lit_simps sublist_Cons_right)
  next
    case False
    note IH = 2(2)[OF False]
    from cd_escape_char_cases[of c] show ?thesis
    proof
      assume e: "cd_escape_token [c] = [c]"
      show ?thesis
      proof
        assume "sublist (lit '']]>'') (escape_cd (c # cs))"
        with False IH e have "prefix (lit '']]>'') (c # escape_cd cs)"
          by (simp add: escape_cd_Cons sublist_Cons_right)
        then have "c = 93" and "prefix [93, 62] (escape_cd cs)"
          by (simp_all add: lit_simps)
        then have "prefix (lit '']]>'') (c # cs)"
          by (simp add: lit_simps escape_cd_starts_bracket_gt)
        with False show False ..
      qed
    next
      assume "\<exists>r. cd_escape_token [c] = 38 # r \<and> 93 \<notin> set r"
      then obtain r where r: "cd_escape_token [c] = 38 # r" "93 \<notin> set r"
        by blast
      then have "93 \<notin> set (38 # r)"
        by simp
      from sublist_skip[OF this, of "[93, 62]" "escape_cd cs"] IH False r show ?thesis
        by (auto simp: escape_cd_Cons lit_simps)
    qed
  qed
qed

section \<open>Apostrophes, clean text, and text around one character\<close>

lemma apos_att_escape_char: "(39 \<in> set (att_escape_char c)) = (c = 39)"
proof (cases "illegal c")
  case True
  have "39 \<notin> set (format_x c)"
    using format_x_hex[of c] by (auto simp: list_all_iff hex_char_def lit_simps)
  with True illegal_not_named[OF True] show ?thesis
    by (simp add: att_escape_char_def char_ref_def lit_simps)
next
  case False
  then show ?thesis
    by (auto simp: att_escape_char_def lit_simps)
qed

lemma att_clean:
  "\<forall>c\<in>set s. c \<noteq> 60 \<and> c \<noteq> 38 \<and> c \<noteq> 34 \<and> \<not> illegal c \<Longrightarrow>
   concat (map att_escape_char s) = s \<and> concat (map att_warnings s) = []"
  by (induction s) (simp_all add: att_escape_char_def att_warnings_def)

lemma cd_clean:
  "\<not> sublist (lit '']]>'') s \<Longrightarrow> \<forall>c\<in>set s. c \<noteq> 60 \<and> c \<noteq> 38 \<and> \<not> illegal c \<Longrightarrow>
   concat (map cd_escape_token (cd_tokens s)) = s \<and> concat (map cd_warnings (cd_tokens s)) = []"
proof (induction s rule: cd_tokens.induct)
  case 1
  show ?case by simp
next
  case (2 c cs)
  from 2(3) have np: "\<not> prefix (lit '']]>'') (c # cs)" and ns: "\<not> sublist (lit '']]>'') cs"
    by (simp_all add: sublist_Cons_right)
  from 2(4) have c: "c \<noteq> 60" "c \<noteq> 38" "\<not> illegal c" and cs: "\<forall>c\<in>set cs. c \<noteq> 60 \<and> c \<noteq> 38 \<and> \<not> illegal c"
    by simp_all
  have t: "cd_tokens (c # cs) = [c] # cd_tokens cs"
    using np by simp
  have e: "cd_escape_token [c] = [c]" "cd_warnings [c] = []"
    using c by (simp_all add: cd_escape_token_def cd_warnings_def lit_simps)
  from 2(2)[OF np ns cs] show ?case
    unfolding t by (simp add: e)
qed

lemma cd_tokens_append_char:
  "c \<noteq> 93 \<Longrightarrow> (c = 62 \<Longrightarrow> \<not> suffix (lit '']]'') pre) \<Longrightarrow>
   cd_tokens (pre @ c # post) = cd_tokens pre @ [c] # cd_tokens post"
proof (induction pre rule: cd_tokens.induct)
  case 1
  then show ?case by (simp add: lit_simps)
next
  case (2 x xs)
  show ?case
  proof (cases "prefix (lit '']]>'') (x # xs)")
    case True
    then obtain r where xs: "xs = 93 # 62 # r" and x: "x = 93"
      by (auto simp: lit_simps prefix_def)
    have s: "c = 62 \<Longrightarrow> \<not> suffix (lit '']]'') (drop 2 xs)"
    proof
      assume "c = 62" and "suffix (lit '']]'') (drop 2 xs)"
      then have "suffix (lit '']]'') (x # xs)"
        by (metis suffix_drop suffix_ConsI suffix_order.trans)
      with 2(4)[OF \<open>c = 62\<close>] show False ..
    qed
    have "prefix (lit '']]>'') ((x # xs) @ c # post)"
      using True by (simp add: prefix_prefix del: append.simps)
    then have "cd_tokens ((x # xs) @ c # post) = lit '']]>'' # cd_tokens (drop 2 (xs @ c # post))"
      by simp
    also have "drop 2 (xs @ c # post) = drop 2 xs @ c # post"
      by (simp add: xs)
    also have "cd_tokens (drop 2 xs @ c # post) = cd_tokens (drop 2 xs) @ [c] # cd_tokens post"
      using 2(1)[OF True 2(3)] s by blast
    finally show ?thesis
      using True by simp
  next
    case False
    have s: "c = 62 \<Longrightarrow> \<not> suffix (lit '']]'') xs"
    proof
      assume "c = 62" and "suffix (lit '']]'') xs"
      then have "suffix (lit '']]'') (x # xs)"
        by (simp add: suffix_ConsI)
      with 2(4)[OF \<open>c = 62\<close>] show False ..
    qed
    have np: "\<not> prefix (lit '']]>'') ((x # xs) @ c # post)"
    proof
      assume p: "prefix (lit '']]>'') ((x # xs) @ c # post)"
      show False
      proof (cases xs)
        case Nil
        with p 2(3) show False by (simp add: lit_simps)
      next
        case (Cons y ys)
        show False
        proof (cases ys)
          case Nil
          with p Cons have "x = 93" "y = 93" "c = 62"
            by (simp_all add: lit_simps)
          with 2(4) Cons Nil show False
            by (simp add: lit_simps suffix_def)
        next
          case (Cons z zs)
          with p \<open>xs = y # ys\<close> False show False
            by (simp add: lit_simps)
        qed
      qed
    qed
    then have "cd_tokens ((x # xs) @ c # post) = [x] # cd_tokens (xs @ c # post)"
      by simp
    also have "cd_tokens (xs @ c # post) = cd_tokens xs @ [c] # cd_tokens post"
      using 2(2)[OF False 2(3)] s by blast
    finally show ?thesis
      using False by simp
  qed
qed

lemma escape_cd_append_char:
  "c \<noteq> 93 \<Longrightarrow> (c = 62 \<Longrightarrow> \<not> suffix (lit '']]'') pre) \<Longrightarrow>
   escape_cd (pre @ c # post) = escape_cd pre @ cd_escape_token [c] @ escape_cd post \<and>
   concat (map cd_warnings (cd_tokens (pre @ c # post))) =
     concat (map cd_warnings (cd_tokens pre)) @ cd_warnings [c] @ concat (map cd_warnings (cd_tokens post))"
  by (simp add: escape_cd_def cd_tokens_append_char)

section \<open>Hexadecimal digits\<close>

lemma digit_value_hex_digit: "d < 16 \<Longrightarrow> digit_value (hex_digit d) = d"
proof -
  assume "d < 16"
  then have "d \<in> {0, 1, 2, 3, 4, 5, 6, 7, 8, 9, 10, 11, 12, 13, 14, 15}"
    by simp arith
  then show ?thesis
    by (auto simp: hex_digit_def digit_value_def lit_simps)
qed

lemma hex_value_snoc: "hex_value (ds @ [d]) = 16 * hex_value ds + digit_value d"
  by (simp add: hex_value_def)

lemma hex_value_format_x: "hex_value (format_x n) = n"
proof (induction n rule: format_x.induct)
  case (1 n)
  show ?case
  proof (cases "n < 16")
    case True
    then show ?thesis
      by (subst format_x.simps) (simp add: hex_value_def digit_value_hex_digit)
  next
    case False
    then show ?thesis
      using 1 by (subst format_x.simps) (simp add: hex_value_snoc digit_value_hex_digit)
  qed
qed

lemma format_x_0: "format_x 0 = lit ''0''"
  by (subst format_x.simps) (simp add: hex_digit_def lit_simps)

lemma concat_cd_tokens: "concat (cd_tokens s) = s"
proof (induction s rule: cd_tokens.induct)
  case 1
  show ?case by simp
next
  case (2 c cs)
  show ?case
  proof (cases "prefix (lit '']]>'') (c # cs)")
    case True
    then obtain r where "cs = 93 # 62 # r" "c = 93"
      by (auto simp: lit_simps prefix_def)
    with True 2(1)[OF True] show ?thesis
      by (simp add: lit_simps)
  next
    case False
    with 2(2)[OF False] show ?thesis
      by simp
  qed
qed

section \<open>The writer on a device that never fails\<close>

lemma str_mul_indentation: "str_mul indentStr0 d = indentation d"
  by (simp add: str_mul_def indentStr0_def indentation_def)

lemma appendsD:
  "appends m ls \<Longrightarrow> quota w = None \<Longrightarrow>
   \<exists>ws. m w = (Inr (), w\<lparr>ftext := ftext w @ file_of_lines ls, warnings := warnings w @ ws\<rparr>)"
  by (simp add: appends_def)

lemma file_of_lines_append: "file_of_lines (xs @ ys) = file_of_lines xs @ file_of_lines ys"
  by (simp add: file_of_lines_def)

lemma appends_print: "appends (print_to_f s) [s]"
  by (auto simp: appends_def print_to_f_def file_of_lines_def intro!: exI[of _ "[]"])

lemma appends_ret: "appends (ret ()) []"
  by (auto simp: appends_def ret_def file_of_lines_def intro!: exI[of _ "[]"])

lemma appends_seq:
  assumes "appends m xs" and "appends (k ()) ys"
  shows "appends (and_then m k) (xs @ ys)"
  unfolding appends_def
proof (intro allI impI)
  fix w :: world
  assume q: "quota w = None"
  from appendsD[OF assms(1) q] obtain ws1 where
    1: "m w = (Inr (), w\<lparr>ftext := ftext w @ file_of_lines xs, warnings := warnings w @ ws1\<rparr>)" ..
  let ?w1 = "w\<lparr>ftext := ftext w @ file_of_lines xs, warnings := warnings w @ ws1\<rparr>"
  have "quota ?w1 = None"
    using q by simp
  from appendsD[OF assms(2) this] obtain ws2 where
    2: "k () ?w1 = (Inr (), ?w1\<lparr>ftext := ftext ?w1 @ file_of_lines ys, warnings := warnings ?w1 @ ws2\<rparr>)" ..
  have "and_then m k w = (Inr (), w\<lparr>ftext := ftext w @ file_of_lines (xs @ ys), warnings := warnings w @ (ws1 @ ws2)\<rparr>)"
    by (simp add: and_then_def 1 2 file_of_lines_append)
  then show "\<exists>ws. and_then m k w = (Inr (), w\<lparr>ftext := ftext w @ file_of_lines (xs @ ys), warnings := warnings w @ ws\<rparr>)" ..
qed

lemma appends_for_each:
  assumes "\<And>x. x \<in> set xs \<Longrightarrow> appends (body x) (f x)"
  shows "appends (for_each xs body) (concat (map f xs))"
  using assms
proof (induction xs)
  case Nil
  show ?case by (simp add: appends_ret)
next
  case (Cons x xs)
  have "appends (and_then (body x) (\<lambda>_. for_each xs body)) (f x @ concat (map f xs))"
    by (rule appends_seq) (simp_all add: Cons)
  then show ?case by simp
qed

lemma appends_formatAttribute:
  assumes "appends (k (escape_att s)) ls"
  shows "appends (and_then (formatAttribute s) k) ls"
  unfolding appends_def
proof (intro allI impI)
  fix w :: world
  assume q: "quota w = None"
  let ?w1 = "w\<lparr>warnings := warnings w @ concat (map att_warnings s)\<rparr>"
  have "quota ?w1 = None"
    using q by simp
  from appendsD[OF assms this] obtain ws where
    "k (escape_att s) ?w1 = (Inr (), ?w1\<lparr>ftext := ftext ?w1 @ file_of_lines ls, warnings := warnings ?w1 @ ws\<rparr>)" ..
  then have "and_then (formatAttribute s) k w =
      (Inr (), w\<lparr>ftext := ftext w @ file_of_lines ls, warnings := warnings w @ (concat (map att_warnings s) @ ws)\<rparr>)"
    by (simp add: and_then_def formatAttribute_eq)
  then show "\<exists>ws. and_then (formatAttribute s) k w =
      (Inr (), w\<lparr>ftext := ftext w @ file_of_lines ls, warnings := warnings w @ ws\<rparr>)" ..
qed

lemma appends_formatElementText:
  assumes "appends (k (escape_cd s)) ls"
  shows "appends (and_then (formatElementText s) k) ls"
  unfolding appends_def
proof (intro allI impI)
  fix w :: world
  assume q: "quota w = None"
  let ?w1 = "w\<lparr>warnings := warnings w @ concat (map cd_warnings (cd_tokens s))\<rparr>"
  have "quota ?w1 = None"
    using q by simp
  from appendsD[OF assms this] obtain ws where
    "k (escape_cd s) ?w1 = (Inr (), ?w1\<lparr>ftext := ftext ?w1 @ file_of_lines ls, warnings := warnings ?w1 @ ws\<rparr>)" ..
  then have "and_then (formatElementText s) k w =
      (Inr (), w\<lparr>ftext := ftext w @ file_of_lines ls, warnings := warnings w @ (concat (map cd_warnings (cd_tokens s)) @ ws)\<rparr>)"
    by (simp add: and_then_def formatElementText_eq)
  then show "\<exists>ws. and_then (formatElementText s) k w =
      (Inr (), w\<lparr>ftext := ftext w @ file_of_lines ls, warnings := warnings w @ ws\<rparr>)" ..
qed

lemma appends_writeCell: "appends (writeCell column val d) [cell_line d (column, val)]"
  unfolding writeCell_def Let_def str_mul_indentation
  by (rule appends_formatAttribute, rule appends_formatElementText)
    (simp add: cell_line_def appends_print)

lemma appends_writeRow: "appends (writeRow ns oid r d) (row_lines d (ns, oid, r))"
proof -
  have c: "appends (for_each r (\<lambda>(column, val). writeCell column val (d + 1)))
     (concat (map (\<lambda>x. [cell_line (d + 1) x]) r))"
    by (rule appends_for_each) (auto simp: appends_writeCell)
  have "appends (writeRow ns oid r d)
     ([indentation d @ lit ''<row namespace='' @ escape_att ns @ lit '' id='' @ escape_att oid @ lit ''>'']
      @ concat (map (\<lambda>x. [cell_line (d + 1) x]) r) @ [indentation d @ lit ''</row>''])"
    unfolding writeRow_def Let_def str_mul_indentation
    by (rule appends_formatAttribute, rule appends_formatAttribute, rule appends_seq,
        rule appends_print, rule appends_seq, rule c, rule appends_print)
  moreover have "concat (map (\<lambda>x. [cell_line (d + 1) x]) r) = map (cell_line (d + 1)) r"
    by (induction r) simp_all
  ultimately show ?thesis
    by (simp add: row_lines_def)
qed

lemma appends_writeMetaTable: "appends (writeMetaTable m d) (metatable_lines d m)"
proof -
  have c: "appends (for_each (cells m) (\<lambda>(column, val). writeCell column val (d + 1)))
     (concat (map (\<lambda>x. [cell_line (d + 1) x]) (cells m)))"
    by (rule appends_for_each) (auto simp: appends_writeCell)
  have r: "appends (for_each (rows m) (\<lambda>(namespace, oid, r). writeRow namespace oid r (d + 1)))
     (concat (map (row_lines (d + 1)) (rows m)))"
    by (rule appends_for_each) (auto simp: appends_writeRow)
  have "appends (writeMetaTable m d)
     ([indentation d @ lit ''<metatable>'']
      @ concat (map (\<lambda>x. [cell_line (d + 1) x]) (cells m))
      @ concat (map (row_lines (d + 1)) (rows m))
      @ [indentation d @ lit ''</metatable>''])"
    unfolding writeMetaTable_def Let_def str_mul_indentation
    by (rule appends_seq, rule appends_print, rule appends_seq, rule c,
        rule appends_seq, rule r, rule appends_print)
  moreover have "concat (map (\<lambda>x. [cell_line (d + 1) x]) (cells m)) = map (cell_line (d + 1)) (cells m)"
    by (induction "cells m") simp_all
  ultimately show ?thesis
    by (simp add: metatable_lines_def)
qed

lemma appends_writeTable:
  "appends (writeTable ns oid tbl (metas (ns, oid)) d) (table_lines d metas (ns, oid, tbl))"
proof -
  have r: "appends (for_each tbl (\<lambda>(rowNamespace, rowId, r). writeRow rowNamespace rowId r (d + 1)))
     (concat (map (row_lines (d + 1)) tbl))"
    by (rule appends_for_each) (auto simp: appends_writeRow)
  have m: "appends (case metas (ns, oid) of None \<Rightarrow> ret () | Some m \<Rightarrow> writeMetaTable m (d + 1))
     (case metas (ns, oid) of None \<Rightarrow> [] | Some m \<Rightarrow> metatable_lines (d + 1) m)"
    by (cases "metas (ns, oid)") (simp_all add: appends_ret appends_writeMetaTable)
  have "appends (writeTable ns oid tbl (metas (ns, oid)) d)
     ([indentation d @ lit ''<table namespace='' @ escape_att ns @ lit '' id='' @ escape_att oid @ lit ''>'']
      @ concat (map (row_lines (d + 1)) tbl)
      @ (case metas (ns, oid) of None \<Rightarrow> [] | Some m \<Rightarrow> metatable_lines (d + 1) m)
      @ [indentation d @ lit ''</table>''])"
    unfolding writeTable_def Let_def str_mul_indentation
    by (rule appends_formatAttribute, rule appends_formatAttribute, rule appends_seq,
        rule appends_print, rule appends_seq, rule r, rule appends_seq, rule m,
        rule appends_print)
  then show ?thesis
    by (simp add: table_lines_def)
qed

lemma and_then_assoc: "and_then (and_then m k) h = and_then m (\<lambda>x. and_then (k x) h)"
  by (auto simp: and_then_def fun_eq_iff split: prod.splits sum.splits)

lemma outputHelper_body:
  "outputHelper db out =
     and_then (codecs_open (case out of None \<Rightarrow> lit ''mork.xml'' | Some name \<Rightarrow> name)) (\<lambda>_.
     and_then (write_document db) (\<lambda>_. f_close))"
  by (simp add: outputHelper_def write_document_def and_then_assoc)

lemma appends_write_document: "appends (write_document db) (document_lines db)"
proof -
  have t: "appends (for_each (tables db) (\<lambda>(namespace, oid, tbl).
                 writeTable namespace oid tbl (metaTables db (namespace, oid)) 1))
     (concat (map (table_lines 1 (metaTables db)) (tables db)))"
    by (rule appends_for_each) (auto simp: appends_writeTable)
  have "appends (write_document db)
     ([lit ''<?xml version='' @ dquote @ lit ''1.0'' @ dquote @ lit '' encoding=''
        @ dquote @ lit ''UTF-8'' @ dquote @ lit '' ?>'']
      @ [lit ''<morkxml>'']
      @ concat (map (table_lines 1 (metaTables db)) (tables db))
      @ [lit ''</morkxml>''])"
    unfolding write_document_def
    by (rule appends_seq, rule appends_print, rule appends_seq, rule appends_print,
        rule appends_seq, rule t, rule appends_print)
  then show ?thesis
    by (simp add: document_lines_def)
qed

lemma outputHelper_run:
  assumes 1: "codecs_open name w = (Inr (), w0)"
    and 2: "write_document db w0 = (Inr (), w1)"
  shows "and_then (codecs_open name) (\<lambda>_. and_then (write_document db) (\<lambda>_. f_close)) w =
     (Inr (), w1\<lparr>closed := True\<rparr>)"
  by (simp add: and_then_def 1 2 f_close_def)

lemma outputHelper_unlimited:
  assumes "quota w = None"
  shows "\<exists>ws. outputHelper db out w =
     (Inr (), w\<lparr>fname := (case out of None \<Rightarrow> lit ''mork.xml'' | Some name \<Rightarrow> name),
               ftext := file_of_lines (document_lines db),
               closed := True,
               warnings := warnings w @ ws\<rparr>)"
proof -
  let ?name = "case out of None \<Rightarrow> lit ''mork.xml'' | Some name \<Rightarrow> name"
  let ?w0 = "w\<lparr>fname := ?name, ftext := [], closed := False\<rparr>"
  have 1: "codecs_open ?name w = (Inr (), ?w0)"
    by (simp add: codecs_open_def)
  have "quota ?w0 = None"
    using assms by simp
  from appendsD[OF appends_write_document this] obtain ws where
    2: "write_document db ?w0 =
     (Inr (), ?w0\<lparr>ftext := ftext ?w0 @ file_of_lines (document_lines db), warnings := warnings ?w0 @ ws\<rparr>)" ..
  have r: "outputHelper db out w =
     (Inr (), w\<lparr>fname := ?name, ftext := file_of_lines (document_lines db), closed := True,
               warnings := warnings w @ ws\<rparr>)"
    unfolding outputHelper_body outputHelper_run[OF 1 2]
    by simp
  show ?thesis
    by (rule exI, rule r)
qed

lemma str_mul_small:
  "str_mul s 0 = []" "str_mul s 1 = s" "str_mul s 2 = s @ s" "str_mul s 3 = s @ s @ s"
  by (simp_all add: str_mul_def eval_nat_numeral)

section \<open>The file stays open until the last statement\<close>

lemma keeps_closed_ret: "keeps_closed (ret x)"
  by (simp add: keeps_closed_def ret_def)

lemma keeps_closed_print: "keeps_closed (print_to_f s)"
  by (simp add: keeps_closed_def print_to_f_def split: option.splits nat.splits)

lemma keeps_closed_seq:
  assumes "keeps_closed m" and "\<And>x. keeps_closed (k x)"
  shows "keeps_closed (and_then m k)"
  unfolding keeps_closed_def
proof
  fix w
  obtain r w1 where m: "m w = (r, w1)"
    by (cases "m w")
  from assms(1) have "closed (snd (m w)) = closed w"
    unfolding keeps_closed_def by blast
  with m have c1: "closed w1 = closed w"
    by simp
  show "closed (snd (and_then m k w)) = closed w"
  proof (cases r)
    case (Inl e)
    with m c1 show ?thesis
      by (simp add: and_then_def)
  next
    case (Inr x)
    from assms(2)[of x] have "closed (snd (k x w1)) = closed w1"
      by (simp add: keeps_closed_def)
    with m c1 Inr show ?thesis
      by (simp add: and_then_def)
  qed
qed

lemma keeps_closed_for_each:
  "(\<And>x. keeps_closed (body x)) \<Longrightarrow> keeps_closed (for_each xs body)"
  by (induction xs) (simp_all add: keeps_closed_ret keeps_closed_seq)

lemma keeps_closed_formatAttribute: "keeps_closed (formatAttribute s)"
  by (simp add: keeps_closed_def formatAttribute_eq)

lemma keeps_closed_formatElementText: "keeps_closed (formatElementText s)"
  by (simp add: keeps_closed_def formatElementText_eq)

lemma keeps_closed_writeCell: "keeps_closed (writeCell column val d)"
  unfolding writeCell_def Let_def
  by (intro keeps_closed_seq keeps_closed_formatAttribute keeps_closed_formatElementText
      keeps_closed_print)

lemma keeps_closed_writeRow: "keeps_closed (writeRow ns oid r d)"
  unfolding writeRow_def Let_def
  by (intro keeps_closed_seq keeps_closed_formatAttribute keeps_closed_print
      keeps_closed_for_each)
    (simp add: split_def keeps_closed_writeCell)

lemma keeps_closed_writeMetaTable: "keeps_closed (writeMetaTable m d)"
  unfolding writeMetaTable_def Let_def
  by (intro keeps_closed_seq keeps_closed_print keeps_closed_for_each)
    (simp_all add: split_def keeps_closed_writeCell keeps_closed_writeRow)

lemma keeps_closed_writeTable: "keeps_closed (writeTable ns oid tbl meta d)"
proof -
  have "keeps_closed (case meta of None \<Rightarrow> ret () | Some m \<Rightarrow> writeMetaTable m (d + 1))"
    by (cases meta) (simp_all add: keeps_closed_ret keeps_closed_writeMetaTable)
  then show ?thesis
    unfolding writeTable_def Let_def
    by (intro keeps_closed_seq keeps_closed_formatAttribute keeps_closed_print
        keeps_closed_for_each)
      (simp_all add: split_def keeps_closed_writeRow)
qed

lemma keeps_closed_write_document: "keeps_closed (write_document db)"
  unfolding write_document_def
  by (intro keeps_closed_seq keeps_closed_print keeps_closed_for_each)
    (simp add: split_def keeps_closed_writeTable)

lemma outputHelper_closed:
  "closed (snd (outputHelper db out w)) = (fst (outputHelper db out w) = Inr ())"
proof -
  let ?name = "case out of None \<Rightarrow> lit ''mork.xml'' | Some name \<Rightarrow> name"
  let ?w0 = "w\<lparr>fname := ?name, ftext := [], closed := False\<rparr>"
  obtain r w1 where b: "write_document db ?w0 = (r, w1)"
    by (cases "write_document db ?w0")
  have "closed (snd (write_document db ?w0)) = closed ?w0"
    using keeps_closed_write_document[of db] unfolding keeps_closed_def by blast
  with b have c: "\<not> closed w1"
    by simp
  show ?thesis
  proof (cases r)
    case (Inl e)
    with b c show ?thesis
      by (simp add: outputHelper_body and_then_def codecs_open_def)
  next
    case (Inr u)
    with b c show ?thesis
      by (simp add: outputHelper_body and_then_def codecs_open_def f_close_def)
  qed
qed

section \<open>Line breaks in a cell\<close>

lemma print_to_f_accepted:
  "quota w \<noteq> Some 0 \<Longrightarrow>
   print_to_f s w =
     (Inr (), w\<lparr>ftext := ftext w @ s @ [10], quota := map_option (\<lambda>n. n - 1) (quota w)\<rparr>)"
  by (cases "quota w") (auto simp: print_to_f_def split: nat.splits)

lemma break_att_escape_char:
  assumes "x \<in> {9, 10, 13}"
  shows "(x \<in> set (att_escape_char c)) = (c = x)"
proof (cases "illegal c")
  case True
  have "x \<notin> set (format_x c)"
    using format_x_hex[of c] assms by (auto simp: list_all_iff hex_char_def lit_simps)
  moreover have "c \<noteq> x"
    using True assms by (auto simp: illegal_def)
  ultimately show ?thesis
    using True illegal_not_named[OF True] assms
    by (auto simp: att_escape_char_def char_ref_def lit_simps)
next
  case False
  then show ?thesis
    using assms by (auto simp: att_escape_char_def lit_simps)
qed

lemma break_escape_att:
  assumes "x \<in> {9, 10, 13}"
  shows "(x \<in> set (escape_att s)) = (x \<in> set s)"
  using assms by (auto simp: escape_att_def dquote_def break_att_escape_char[OF assms])

lemma break_cd_escape_char:
  assumes "x \<in> {9, 10, 13}"
  shows "(x \<in> set (cd_escape_token [c])) = (c = x)"
proof (cases "illegal c")
  case True
  have "x \<notin> set (format_x c)"
    using format_x_hex[of c] assms by (auto simp: list_all_iff hex_char_def lit_simps)
  moreover have "c \<noteq> x"
    using True assms by (auto simp: illegal_def)
  ultimately show ?thesis
    using True illegal_not_named[OF True] assms
    by (auto simp: cd_escape_token_def char_ref_def lit_simps)
next
  case False
  then show ?thesis
    using assms by (auto simp: cd_escape_token_def lit_simps)
qed

lemma break_escape_cd:
  assumes "x \<in> {9, 10, 13}"
  shows "(x \<in> set (escape_cd s)) = (x \<in> set s)"
proof (induction s rule: cd_tokens.induct)
  case 1
  show ?case by (simp add: escape_cd_Nil)
next
  case (2 c cs)
  show ?case
  proof (cases "prefix (lit '']]>'') (c # cs)")
    case True
    then obtain r where cs: "cs = 93 # 62 # r" and c: "c = 93"
      by (auto simp: lit_simps prefix_def)
    from 2(1)[OF True] assms show ?thesis
      using True by (auto simp: escape_cd_Cons cs c lit_simps)
  next
    case False
    from 2(2)[OF False] show ?thesis
      using False by (auto simp: escape_cd_Cons break_cd_escape_char[OF assms])
  qed
qed

lemma break_indentation: "x \<in> {9, 10, 13} \<Longrightarrow> x \<notin> set (str_mul indentStr0 d)"
  by (auto simp: str_mul_def indentStr0_def lit_simps)

lemma writeCell_accepted:
  assumes "quota w \<noteq> Some 0"
  shows "writeCell column val d w =
     (Inr (),
      w\<lparr>ftext := ftext w @ (str_mul indentStr0 d @ lit ''<cell column='' @ escape_att column
                     @ lit ''>'' @ escape_cd val @ lit ''</cell>'') @ [10],
        quota := map_option (\<lambda>n. n - 1) (quota w),
        warnings := warnings w @ (concat (map att_warnings column)
                     @ concat (map cd_warnings (cd_tokens val)))\<rparr>)"
proof -
  let ?w1 = "w\<lparr>warnings := warnings w @ concat (map att_warnings column)\<rparr>"
  let ?w2 = "?w1\<lparr>warnings := warnings ?w1 @ concat (map cd_warnings (cd_tokens val))\<rparr>"
  have "quota ?w2 \<noteq> Some 0"
    using assms by simp
  from print_to_f_accepted[OF this] show ?thesis
    by (simp add: writeCell_def Let_def and_then_def formatAttribute_eq formatElementText_eq)
qed

lemma break_cell_line:
  assumes "x \<in> {9, 10, 13}"
  shows "(x \<in> set (str_mul indentStr0 d @ lit ''<cell column='' @ escape_att column
                       @ lit ''>'' @ escape_cd val @ lit ''</cell>''))
       = (x \<in> set column \<or> x \<in> set val)"
proof -
  have 1: "x \<notin> set (lit ''<cell column='')" "x \<notin> set (lit ''>'')" "x \<notin> set (lit ''</cell>'')"
    using assms by (auto simp: lit_simps)
  show ?thesis
    using 1 break_indentation[OF assms, of d]
    by (simp add: break_escape_att[OF assms] break_escape_cd[OF assms])
qed

section \<open>The properties\<close>

text \<open>
  C1 (amended). For every string \<open>s\<close>, the text \<open>_formatAttribute\<close> returns is a double
  quote, a body and a double quote, and the body holds no raw \<open><\<close>, no raw \<open>"\<close> and no
  raw \<open>&\<close>; an apostrophe is not escaped: the body holds one exactly when \<open>s\<close> does.
  The text \<open>_formatElementText\<close> returns holds no raw \<open><\<close>, no raw \<open>&\<close> and nowhere
  the three characters \<open>]]>\<close>.
\<close>

theorem C1_escaped_text_has_no_raw_markup:
  "\<exists>body txt w1 w2.
     formatAttribute s w = (Inr (dquote @ body @ dquote), w1) \<and>
     raw_free (lit ''<'' @ dquote) body \<and>
     (39 \<in> set body) = (39 \<in> set s) \<and>
     formatElementText s w = (Inr txt, w2) \<and>
     raw_free (lit ''<'') txt \<and>
     \<not> sublist (lit '']]>'') txt"
  by (simp add: formatAttribute_eq formatElementText_eq escape_att_def
      raw_free_escape_att_body apos_att_escape_char raw_free_escape_cd escape_cd_no_cdata_end)

text \<open>
  The claim as stated fails on the apostrophe: \<open>_formatAttribute("'")\<close> is \<open>"'"\<close>, with
  the apostrophe raw between the quotes.
\<close>

theorem C1_apostrophe_counterexample:
  "formatAttribute apos idle = (Inr (dquote @ apos @ dquote), idle) \<and>
   \<not> raw_free (lit ''<'' @ dquote @ apos) apos"
  by (simp add: formatAttribute_eq escape_att_def att_escape_char_def att_warnings_def
      apos_def dquote_def lit_simps illegal_def)

text \<open>
  C2 (amended). Let \<open>c\<close> be a character outside the \<open>Char\<close> production of XML, between
  the texts \<open>pre\<close> and \<open>post\<close>. Both functions return a result (nothing is raised). In
  the result \<open>c\<close> is replaced by \<open>&#x\<close>, the hexadecimal digits of its code point and
  \<open>;\<close> (for U+0000: \<open>&#x0;\<close>), one warning is issued for it, and the texts before and
  after it are escaped exactly as each is escaped on its own, with the warnings each
  gives on its own. In an attribute value that is also the escaping of the string
  without \<open>c\<close>.
\<close>

theorem C2_illegal_character_becomes_reference:
  assumes "c \<le> 0x10FFFF" and "\<not> xml_char c"
  shows "(\<exists>a b wa wb.
            formatAttribute pre w = (Inr (dquote @ a @ dquote), w\<lparr>warnings := warnings w @ wa\<rparr>) \<and>
            formatAttribute post w = (Inr (dquote @ b @ dquote), w\<lparr>warnings := warnings w @ wb\<rparr>) \<and>
            formatAttribute (pre @ [c] @ post) w =
              (Inr (dquote @ a @ lit ''&#x'' @ format_x c @ lit '';'' @ b @ dquote),
               w\<lparr>warnings := warnings w @ wa @ [invalid_xml_warning] @ wb\<rparr>) \<and>
            formatAttribute (pre @ post) w =
              (Inr (dquote @ a @ b @ dquote), w\<lparr>warnings := warnings w @ wa @ wb\<rparr>)) \<and>
         (\<exists>a b wa wb.
            formatElementText pre w = (Inr a, w\<lparr>warnings := warnings w @ wa\<rparr>) \<and>
            formatElementText post w = (Inr b, w\<lparr>warnings := warnings w @ wb\<rparr>) \<and>
            formatElementText (pre @ [c] @ post) w =
              (Inr (a @ lit ''&#x'' @ format_x c @ lit '';'' @ b),
               w\<lparr>warnings := warnings w @ wa @ [invalid_xml_warning] @ wb\<rparr>)) \<and>
         hex_value (format_x c) = c \<and>
         lit ''&#x'' @ format_x 0 @ lit '';'' = lit ''&#x0;''"
proof -
  from assms have i: "illegal c"
    by (simp add: illegal_iff_not_xml_char)
  note n = illegal_not_named[OF i]
  have a: "att_escape_char c = lit ''&#x'' @ format_x c @ lit '';''"
    "att_warnings c = [invalid_xml_warning]"
    using i n by (simp_all add: att_escape_char_def att_warnings_def char_ref_def)
  have t: "cd_escape_token [c] = lit ''&#x'' @ format_x c @ lit '';''"
    "cd_warnings [c] = [invalid_xml_warning]"
    using i n by (simp_all add: cd_escape_token_def cd_warnings_def char_ref_def lit_simps)
  have d: "escape_cd (pre @ c # post) = escape_cd pre @ cd_escape_token [c] @ escape_cd post"
    "concat (map cd_warnings (cd_tokens (pre @ c # post))) =
       concat (map cd_warnings (cd_tokens pre)) @ cd_warnings [c]
         @ concat (map cd_warnings (cd_tokens post))"
    using escape_cd_append_char[of c pre post] n by simp_all
  have "\<exists>a b wa wb.
          formatAttribute pre w = (Inr (dquote @ a @ dquote), w\<lparr>warnings := warnings w @ wa\<rparr>) \<and>
          formatAttribute post w = (Inr (dquote @ b @ dquote), w\<lparr>warnings := warnings w @ wb\<rparr>) \<and>
          formatAttribute (pre @ [c] @ post) w =
            (Inr (dquote @ a @ lit ''&#x'' @ format_x c @ lit '';'' @ b @ dquote),
             w\<lparr>warnings := warnings w @ wa @ [invalid_xml_warning] @ wb\<rparr>) \<and>
          formatAttribute (pre @ post) w =
            (Inr (dquote @ a @ b @ dquote), w\<lparr>warnings := warnings w @ wa @ wb\<rparr>)"
    by (rule exI[of _ "concat (map att_escape_char pre)"],
        rule exI[of _ "concat (map att_escape_char post)"],
        rule exI[of _ "concat (map att_warnings pre)"],
        rule exI[of _ "concat (map att_warnings post)"])
      (simp add: formatAttribute_eq escape_att_def a)
  moreover have "\<exists>a b wa wb.
          formatElementText pre w = (Inr a, w\<lparr>warnings := warnings w @ wa\<rparr>) \<and>
          formatElementText post w = (Inr b, w\<lparr>warnings := warnings w @ wb\<rparr>) \<and>
          formatElementText (pre @ [c] @ post) w =
            (Inr (a @ lit ''&#x'' @ format_x c @ lit '';'' @ b),
             w\<lparr>warnings := warnings w @ wa @ [invalid_xml_warning] @ wb\<rparr>)"
    by (rule exI[of _ "escape_cd pre"], rule exI[of _ "escape_cd post"],
        rule exI[of _ "concat (map cd_warnings (cd_tokens pre))"],
        rule exI[of _ "concat (map cd_warnings (cd_tokens post))"])
      (simp add: formatElementText_eq d t)
  moreover have "lit ''&#x'' @ format_x 0 @ lit '';'' = lit ''&#x0;''"
    by (simp add: format_x_0 lit_simps)
  ultimately show ?thesis
    by (simp only: hex_value_format_x simp_thms)
qed

theorem C2_illegal_character_witness:
  "(\<exists>a b wa wb.
      formatAttribute (lit ''a<'') idle = (Inr (dquote @ a @ dquote), idle\<lparr>warnings := warnings idle @ wa\<rparr>) \<and>
      formatAttribute (lit ''b'') idle = (Inr (dquote @ b @ dquote), idle\<lparr>warnings := warnings idle @ wb\<rparr>) \<and>
      formatAttribute (lit ''a<'' @ [0] @ lit ''b'') idle =
        (Inr (dquote @ a @ lit ''&#x'' @ format_x 0 @ lit '';'' @ b @ dquote),
         idle\<lparr>warnings := warnings idle @ wa @ [invalid_xml_warning] @ wb\<rparr>) \<and>
      formatAttribute (lit ''a<'' @ lit ''b'') idle =
        (Inr (dquote @ a @ b @ dquote), idle\<lparr>warnings := warnings idle @ wa @ wb\<rparr>)) \<and>
   (\<exists>a b wa wb.
      formatElementText (lit ''a<'') idle = (Inr a, idle\<lparr>warnings := warnings idle @ wa\<rparr>) \<and>
      formatElementText (lit ''b'') idle = (Inr b, idle\<lparr>warnings := warnings idle @ wb\<rparr>) \<and>
      formatElementText (lit ''a<'' @ [0] @ lit ''b'') idle =
        (Inr (a @ lit ''&#x'' @ format_x 0 @ lit '';'' @ b),
         idle\<lparr>warnings := warnings idle @ wa @ [invalid_xml_warning] @ wb\<rparr>)) \<and>
   hex_value (format_x 0) = 0 \<and>
   lit ''&#x'' @ format_x 0 @ lit '';'' = lit ''&#x0;''"
proof -
  have h1: "(0::nat) \<le> 0x10FFFF"
    by simp
  have h2: "\<not> xml_char 0"
    by (simp add: xml_char_def)
  show ?thesis
    by (rule C2_illegal_character_becomes_reference[OF h1 h2])
qed

text \<open>
  The claim as stated fails in character data: with U+0000 between \<open>]]\<close> and \<open>>\<close> the
  \<open>>\<close> stays as it is, while without that character the rest, \<open>]]>\<close>, is escaped to
  \<open>]]&gt;\<close>.
\<close>

theorem C2_rest_of_string_counterexample:
  "formatElementText (lit '']]'' @ [0] @ lit ''>'') idle =
     (Inr (lit '']]'' @ lit ''&#x0;'' @ lit ''>''), idle\<lparr>warnings := [invalid_xml_warning]\<rparr>) \<and>
   formatElementText (lit '']]'' @ lit ''>'') idle = (Inr (lit '']]&gt;''), idle)"
  by (simp add: formatElementText_eq escape_cd_def cd_escape_token_def cd_warnings_def
      char_ref_def format_x_0 lit_simps illegal_def idle_def)

text \<open>
  C3. A string that holds none of \<open><\<close>, \<open>&\<close>, \<open>"\<close>, \<open>'\<close>, nowhere the sequence
  \<open>]]>\<close>, and no illegal character is returned by \<open>_formatAttribute\<close> between two
  double quotes and by \<open>_formatElementText\<close> as it is; no warning is issued.
\<close>

theorem C3_clean_text_is_unchanged:
  assumes "set s \<inter> set (lit ''<&'' @ dquote @ apos) = {}"
    and "\<not> sublist (lit '']]>'') s"
    and "\<forall>c\<in>set s. \<not> illegal c"
  shows "formatAttribute s w = (Inr (dquote @ s @ dquote), w) \<and>
         formatElementText s w = (Inr s, w)"
proof -
  from assms(1,3) have a: "\<forall>c\<in>set s. c \<noteq> 60 \<and> c \<noteq> 38 \<and> c \<noteq> 34 \<and> \<not> illegal c"
    by (auto simp: lit_simps dquote_def)
  then have b: "\<forall>c\<in>set s. c \<noteq> 60 \<and> c \<noteq> 38 \<and> \<not> illegal c"
    by simp
  show ?thesis
    using att_clean[OF a] cd_clean[OF assms(2) b]
    by (simp add: formatAttribute_eq formatElementText_eq escape_att_def escape_cd_def)
qed

theorem C3_clean_text_witness:
  "formatAttribute (lit ''A B'') idle = (Inr (dquote @ lit ''A B'' @ dquote), idle) \<and>
   formatElementText (lit ''A B'') idle = (Inr (lit ''A B''), idle)"
proof -
  have h1: "set (lit ''A B'') \<inter> set (lit ''<&'' @ dquote @ apos) = {}"
    by (simp add: lit_simps dquote_def apos_def)
  have h2: "\<not> sublist (lit '']]>'') (lit ''A B'')"
    by (simp add: lit_simps sublist_Cons_right)
  have h3: "\<forall>c\<in>set (lit ''A B''). \<not> illegal c"
    by (simp add: lit_simps illegal_def)
  show ?thesis
    by (rule C3_clean_text_is_unchanged[OF h1 h2 h3])
qed

text \<open>
  C4. Writing the example database with \<open>out\<close> omitted, on a device that does not fail,
  returns normally and leaves a closed file named \<open>mork.xml\<close> that holds exactly the
  eight lines of the example; no warning is issued.
\<close>

theorem C4_example_document:
  "outputHelper example_db None idle =
     (Inr (),
      \<lparr>fname = lit ''mork.xml'',
       ftext = file_of_lines
         [lit ''<?xml version=\"1.0\" encoding=\"UTF-8\" ?>'',
          lit ''<morkxml>'',
          lit ''    <table namespace=\"ns1\" id=\"1\">'',
          lit ''        <row namespace=\"ns1\" id=\"r1\">'',
          lit ''            <cell column=\"Name\">A &amp; B</cell>'',
          lit ''        </row>'',
          lit ''    </table>'',
          lit ''</morkxml>''],
       closed = True,
       quota = None,
       warnings = []\<rparr>)"
  by (simp add: outputHelper_def example_db_def idle_def and_then_def codecs_open_def
      print_to_f_def f_close_def writeTable_def writeRow_def writeCell_def ret_def
      formatAttribute_eq formatElementText_eq escape_att_def escape_cd_def
      att_escape_char_def att_warnings_def cd_escape_token_def cd_warnings_def illegal_def
      str_mul_small indentStr0_def dquote_def file_of_lines_def lit_simps Let_def)

text \<open>
  C5. On a device that does not fail, \<open>_outputHelper\<close> returns normally and the closed
  file holds exactly the lines of \<open>document_lines\<close>: the declaration and the root
  element around the table elements in the stored order of \<open>db.tables\<close>; in a table
  element its rows in stored order, then its metatable element if the table has one;
  in a metatable element its cells in stored order, then its rows in stored order; in
  a row element its cells in stored order. Every stored table, row and cell gives its
  lines once per occurrence, in place: nothing is reordered, sorted or dropped.
\<close>

theorem C5_document_follows_stored_order:
  assumes "quota w = None"
  shows "\<exists>ws. outputHelper db out w =
     (Inr (), w\<lparr>fname := (case out of None \<Rightarrow> lit ''mork.xml'' | Some name \<Rightarrow> name),
               ftext := file_of_lines (document_lines db),
               closed := True,
               warnings := warnings w @ ws\<rparr>)"
  using assms by (rule outputHelper_unlimited)

theorem C5_document_order_witness:
  "\<exists>ws. outputHelper example_db None idle =
     (Inr (), idle\<lparr>fname := (case None of None \<Rightarrow> lit ''mork.xml'' | Some name \<Rightarrow> name),
               ftext := file_of_lines (document_lines example_db),
               closed := True,
               warnings := warnings idle @ ws\<rparr>)"
proof -
  have h: "quota idle = None"
    by (simp add: idle_def)
  show ?thesis
    by (rule C5_document_follows_stored_order[OF h])
qed

text \<open>
  C6. One call scans the input once and never looks at what it has substituted: the
  result is the concatenation, in order, of one image per token of the input, where
  the tokens partition the input (in an attribute value every character is a token; in
  character data the occurrences of \<open>]]>\<close> and the single characters between them),
  and the image of a token depends on that token alone: its replacement when the
  matcher of the context matches it, the token itself otherwise. So \<open>&\<close> becomes
  exactly \<open>&amp;\<close>; only a second call turns \<open>&amp;\<close> into \<open>&amp;amp;\<close>.
\<close>

theorem C6_escaping_is_single_pass:
  "formatElementText (lit ''&'') w = (Inr (lit ''&amp;''), w) \<and>
   formatElementText (lit ''&amp;'') w = (Inr (lit ''&amp;amp;''), w) \<and>
   (\<exists>w1. formatAttribute s w = (Inr (dquote @ concat (map att_escape_char s) @ dquote), w1)) \<and>
   (\<exists>w2. formatElementText s w = (Inr (concat (map cd_escape_token (cd_tokens s))), w2)) \<and>
   concat (cd_tokens s) = s"
proof -
  have "formatElementText (lit ''&'') w = (Inr (lit ''&amp;''), w)"
    by (simp add: formatElementText_eq escape_cd_def cd_escape_token_def cd_warnings_def
        lit_simps illegal_def)
  moreover have "formatElementText (lit ''&amp;'') w = (Inr (lit ''&amp;amp;''), w)"
    by (simp add: formatElementText_eq escape_cd_def cd_escape_token_def cd_warnings_def
        lit_simps illegal_def)
  ultimately show ?thesis
    by (simp add: formatAttribute_eq formatElementText_eq escape_att_def escape_cd_def
        concat_cd_tokens)
qed

text \<open>
  C7 (amended). On a device that accepts the write, \<open>_writeCell\<close> performs one
  \<open>print\<close>: the indentation, \<open><cell column=\<close>, the escaped column name, \<open>>\<close>, the
  escaped value and \<open></cell>\<close>, ended by a line feed. The escaped value holds no raw
  \<open><\<close>, so the cell has no child element. A line feed or a carriage return is not
  escaped: the text printed before the final line feed holds one exactly when the
  column name or the value does. So the cell is on a single line exactly when neither
  holds a line break.
\<close>

theorem C7_cell_is_one_print:
  assumes "quota w \<noteq> Some 0"
  shows "\<exists>a t ws.
     (\<exists>w1. formatAttribute column w = (Inr a, w1)) \<and>
     (\<exists>w2. formatElementText val w = (Inr t, w2)) \<and>
     writeCell column val indent w =
       (Inr (),
        w\<lparr>ftext := ftext w @ (str_mul indentStr0 indent @ lit ''<cell column='' @ a
                       @ lit ''>'' @ t @ lit ''</cell>'') @ [10],
          quota := map_option (\<lambda>n. n - 1) (quota w),
          warnings := warnings w @ ws\<rparr>) \<and>
     raw_free (lit ''<'') t \<and>
     (10 \<in> set (str_mul indentStr0 indent @ lit ''<cell column='' @ a
                       @ lit ''>'' @ t @ lit ''</cell>''))
       = (10 \<in> set column \<or> 10 \<in> set val) \<and>
     (13 \<in> set (str_mul indentStr0 indent @ lit ''<cell column='' @ a
                       @ lit ''>'' @ t @ lit ''</cell>''))
       = (13 \<in> set column \<or> 13 \<in> set val)"
proof -
  have b: "(10::nat) \<in> {9, 10, 13}" "(13::nat) \<in> {9, 10, 13}"
    by simp_all
  show ?thesis
    by (rule exI[of _ "escape_att column"], rule exI[of _ "escape_cd val"],
        rule exI[of _ "concat (map att_warnings column) @ concat (map cd_warnings (cd_tokens val))"])
      (simp add: formatAttribute_eq formatElementText_eq writeCell_accepted[OF assms]
        raw_free_escape_cd break_cell_line[OF b(1)] break_cell_line[OF b(2)]
        del: set_append)
qed

theorem C7_cell_witness:
  "\<exists>a t ws.
     (\<exists>w1. formatAttribute (lit ''Name'') idle = (Inr a, w1)) \<and>
     (\<exists>w2. formatElementText (lit ''A & B'') idle = (Inr t, w2)) \<and>
     writeCell (lit ''Name'') (lit ''A & B'') 3 idle =
       (Inr (),
        idle\<lparr>ftext := ftext idle @ (str_mul indentStr0 3 @ lit ''<cell column='' @ a
                       @ lit ''>'' @ t @ lit ''</cell>'') @ [10],
          quota := map_option (\<lambda>n. n - 1) (quota idle),
          warnings := warnings idle @ ws\<rparr>) \<and>
     raw_free (lit ''<'') t \<and>
     (10 \<in> set (str_mul indentStr0 3 @ lit ''<cell column='' @ a
                       @ lit ''>'' @ t @ lit ''</cell>''))
       = (10 \<in> set (lit ''Name'') \<or> 10 \<in> set (lit ''A & B'')) \<and>
     (13 \<in> set (str_mul indentStr0 3 @ lit ''<cell column='' @ a
                       @ lit ''>'' @ t @ lit ''</cell>''))
       = (13 \<in> set (lit ''Name'') \<or> 13 \<in> set (lit ''A & B''))"
proof -
  have h: "quota idle \<noteq> Some 0"
    by (simp add: idle_def)
  show ?thesis
    by (rule C7_cell_is_one_print[OF h])
qed

text \<open>
  The claim as stated fails on a value that holds a line feed: the cell is printed
  with the line feed in it and spans two lines.
\<close>

theorem C7_line_feed_counterexample:
  "writeCell (lit ''c'') (lit ''a'' @ [10] @ lit ''b'') 0 idle =
     (Inr (), idle\<lparr>ftext := lit ''<cell column=\"c\">a'' @ [10] @ lit ''b</cell>'' @ [10]\<rparr>)"
  by (simp add: writeCell_def Let_def and_then_def formatAttribute_eq formatElementText_eq
      print_to_f_def idle_def str_mul_small indentStr0_def escape_att_def escape_cd_def
      att_escape_char_def att_warnings_def cd_escape_token_def cd_warnings_def illegal_def
      dquote_def lit_simps)

text \<open>
  C8 (amended). When \<open>_outputHelper\<close> returns to its caller, the file object is closed
  exactly when the call returned normally: \<open>f.close()\<close> is the last statement and
  nothing guards it, so an exception raised by a write leaves the file object open.
\<close>

theorem C8_file_closed_only_on_normal_return:
  "closed (snd (outputHelper db out w)) = (fst (outputHelper db out w) = Inr ())"
  by (rule outputHelper_closed)

text \<open>
  The claim as stated fails when a write fails: on a device that accepts three
  \<open>print\<close> statements the fourth raises, the exception propagates, and the file
  object is still open when control returns.
\<close>

theorem C8_failed_write_counterexample:
  "outputHelper example_db None (idle\<lparr>quota := Some 3\<rparr>) =
     (Inl IOError,
      \<lparr>fname = lit ''mork.xml'',
       ftext = file_of_lines
         [lit ''<?xml version=\"1.0\" encoding=\"UTF-8\" ?>'',
          lit ''<morkxml>'',
          lit ''    <table namespace=\"ns1\" id=\"1\">''],
       closed = False,
       quota = Some 0,
       warnings = []\<rparr>)"
  by (simp add: outputHelper_def example_db_def idle_def and_then_def codecs_open_def
      print_to_f_def f_close_def writeTable_def writeRow_def writeCell_def ret_def
      formatAttribute_eq formatElementText_eq escape_att_def escape_cd_def
      att_escape_char_def att_warnings_def cd_escape_token_def cd_warnings_def illegal_def
      str_mul_small indentStr0_def dquote_def file_of_lines_def lit_simps Let_def)

text \<open>
  C9. Tab (U+0009), line feed (U+000A) and carriage return (U+000D) are not in the
  class of illegal characters the matchers use. A string in which every character is
  one of these three, or is none of \<open><\<close>, \<open>&\<close>, \<open>"\<close>, \<open>'\<close> and not illegal, and in
  which \<open>]]>\<close> does not occur, is returned by \<open>_formatAttribute\<close> between two double
  quotes and by \<open>_formatElementText\<close> as it is; no warning is issued.
\<close>

theorem C9_tab_lf_cr_pass_through:
  assumes "\<forall>c\<in>set s. c \<in> {9, 10, 13} \<or> (c \<notin> set (lit ''<&'' @ dquote @ apos) \<and> \<not> illegal c)"
    and "\<not> sublist (lit '']]>'') s"
  shows "\<not> in_class non_char 9 \<and> \<not> in_class non_char 10 \<and> \<not> in_class non_char 13 \<and>
         formatAttribute s w = (Inr (dquote @ s @ dquote), w) \<and>
         formatElementText s w = (Inr s, w)"
proof -
  have i: "\<not> illegal 9" "\<not> illegal 10" "\<not> illegal 13"
    by (simp_all add: illegal_def)
  from assms(1) have a: "\<forall>c\<in>set s. c \<noteq> 60 \<and> c \<noteq> 38 \<and> c \<noteq> 34 \<and> \<not> illegal c"
    using i by (auto simp: lit_simps dquote_def)
  then have b: "\<forall>c\<in>set s. c \<noteq> 60 \<and> c \<noteq> 38 \<and> \<not> illegal c"
    by simp
  show ?thesis
    using att_clean[OF a] cd_clean[OF assms(2) b] i
    by (simp add: formatAttribute_eq formatElementText_eq escape_att_def escape_cd_def in_non_char)
qed

theorem C9_tab_lf_cr_witness:
  "\<not> in_class non_char 9 \<and> \<not> in_class non_char 10 \<and> \<not> in_class non_char 13 \<and>
   formatAttribute ([9, 10, 13] @ lit ''a>b'') idle =
     (Inr (dquote @ ([9, 10, 13] @ lit ''a>b'') @ dquote), idle) \<and>
   formatElementText ([9, 10, 13] @ lit ''a>b'') idle = (Inr ([9, 10, 13] @ lit ''a>b''), idle)"
proof -
  have h1: "\<forall>c\<in>set ([9, 10, 13] @ lit ''a>b'').
      c \<in> {9, 10, 13} \<or> (c \<notin> set (lit ''<&'' @ dquote @ apos) \<and> \<not> illegal c)"
    by (simp add: lit_simps dquote_def apos_def illegal_def)
  have h2: "\<not> sublist (lit '']]>'') ([9, 10, 13] @ lit ''a>b'')"
    by (simp add: lit_simps sublist_Cons_right)
  show ?thesis
    by (rule C9_tab_lf_cr_pass_through[OF h1 h2])
qed

text \<open>
  C10. The table \<open>_replacements\<close> maps \<open>>\<close> to \<open>&gt;\<close>, but no matcher matches a
  \<open>>\<close> on its own. In an attribute value every \<open>>\<close> is kept: the text before it and the
  text after it are escaped as each is on its own, and the \<open>>\<close> stands between them. In
  character data the same holds for every \<open>>\<close> that does not end an occurrence of
  \<open>]]>\<close>, that is, whenever the text before it does not end in \<open>]]\<close>.
\<close>

theorem C10_lone_gt_is_not_escaped:
  "replacements (lit ''>'') = Some (lit ''&gt;'') \<and>
   (\<exists>a b wa wb.
      formatAttribute pre w = (Inr (dquote @ a @ dquote), w\<lparr>warnings := warnings w @ wa\<rparr>) \<and>
      formatAttribute post w = (Inr (dquote @ b @ dquote), w\<lparr>warnings := warnings w @ wb\<rparr>) \<and>
      formatAttribute (pre @ lit ''>'' @ post) w =
        (Inr (dquote @ a @ lit ''>'' @ b @ dquote), w\<lparr>warnings := warnings w @ wa @ wb\<rparr>)) \<and>
   (\<not> suffix (lit '']]'') pre \<longrightarrow>
    (\<exists>a b wa wb.
       formatElementText pre w = (Inr a, w\<lparr>warnings := warnings w @ wa\<rparr>) \<and>
       formatElementText post w = (Inr b, w\<lparr>warnings := warnings w @ wb\<rparr>) \<and>
       formatElementText (pre @ lit ''>'' @ post) w =
         (Inr (a @ lit ''>'' @ b), w\<lparr>warnings := warnings w @ wa @ wb\<rparr>)))"
proof -
  have g: "lit ''>'' = [62]"
    by (simp add: lit_simps)
  have r: "replacements (lit ''>'') = Some (lit ''&gt;'')"
    by (simp add: replacements_def lit_simps)
  have a: "att_escape_char 62 = [62]" "att_warnings 62 = []"
    by (simp_all add: att_escape_char_def att_warnings_def illegal_def)
  have t: "cd_escape_token [62] = [62]" "cd_warnings [62] = []"
    by (simp_all add: cd_escape_token_def cd_warnings_def illegal_def lit_simps)
  have "\<exists>a b wa wb.
      formatAttribute pre w = (Inr (dquote @ a @ dquote), w\<lparr>warnings := warnings w @ wa\<rparr>) \<and>
      formatAttribute post w = (Inr (dquote @ b @ dquote), w\<lparr>warnings := warnings w @ wb\<rparr>) \<and>
      formatAttribute (pre @ lit ''>'' @ post) w =
        (Inr (dquote @ a @ lit ''>'' @ b @ dquote), w\<lparr>warnings := warnings w @ wa @ wb\<rparr>)"
    by (rule exI[of _ "concat (map att_escape_char pre)"],
        rule exI[of _ "concat (map att_escape_char post)"],
        rule exI[of _ "concat (map att_warnings pre)"],
        rule exI[of _ "concat (map att_warnings post)"])
      (simp add: formatAttribute_eq escape_att_def a g)
  moreover have "\<exists>a b wa wb.
       formatElementText pre w = (Inr a, w\<lparr>warnings := warnings w @ wa\<rparr>) \<and>
       formatElementText post w = (Inr b, w\<lparr>warnings := warnings w @ wb\<rparr>) \<and>
       formatElementText (pre @ lit ''>'' @ post) w =
         (Inr (a @ lit ''>'' @ b), w\<lparr>warnings := warnings w @ wa @ wb\<rparr>)"
    if s: "\<not> suffix (lit '']]'') pre"
  proof -
    have d: "escape_cd (pre @ 62 # post) = escape_cd pre @ cd_escape_token [62] @ escape_cd post"
      "concat (map cd_warnings (cd_tokens (pre @ 62 # post))) =
         concat (map cd_warnings (cd_tokens pre)) @ cd_warnings [62]
           @ concat (map cd_warnings (cd_tokens post))"
      using escape_cd_append_char[of 62 pre post] s by simp_all
    show ?thesis
      by (rule exI[of _ "escape_cd pre"], rule exI[of _ "escape_cd post"],
          rule exI[of _ "concat (map cd_warnings (cd_tokens pre))"],
          rule exI[of _ "concat (map cd_warnings (cd_tokens post))"])
        (simp add: formatElementText_eq d t g)
  qed
  ultimately show ?thesis
    using r by blast
qed

theorem C10_lone_gt_witness:
  "\<not> suffix (lit '']]'') (lit ''a]'') \<and>
   (\<exists>a b wa wb.
       formatElementText (lit ''a]'') idle = (Inr a, idle\<lparr>warnings := warnings idle @ wa\<rparr>) \<and>
       formatElementText (lit ''b'') idle = (Inr b, idle\<lparr>warnings := warnings idle @ wb\<rparr>) \<and>
       formatElementText (lit ''a]'' @ lit ''>'' @ lit ''b'') idle =
         (Inr (a @ lit ''>'' @ b), idle\<lparr>warnings := warnings idle @ wa @ wb\<rparr>))"
proof -
  have h: "\<not> suffix (lit '']]'') (lit ''a]'')"
    by (simp add: lit_simps suffix_to_prefix)
  with C10_lone_gt_is_not_escaped[of "lit ''a]''" idle "lit ''b''"] show ?thesis
    by blast
qed

end
